theory Spec2Isabelle
  imports Complex_Main
begin

section \<open>Numbers and arrays\<close>

text \<open>
  The program computes with numpy arrays of float64. A finite float is idealised as a
  real number (no rounding, no overflow, no signed zero); the three non-finite values
  that numpy produces silently (a RuntimeWarning, never an exception) are kept, with the
  IEEE rules for them, because the division in \<open>forward\<close> and the logarithm in
  \<open>probStateDuration\<close> can reach them. What is proved below about a finite result of
  an addition, product, quotient, logarithm or exponential is therefore a fact of exact
  arithmetic; the float64 result is that value rounded. What is proved about errors,
  shapes and non-finite values does not depend on the rounding.
\<close>

datatype npfloat = Fin real | PInf | NInf | NaN

datatype error = AssertionError | IndexError | ValueError

fun is_fin :: "npfloat \<Rightarrow> bool" where
  "is_fin (Fin x) = True"
| "is_fin PInf = False"
| "is_fin NInf = False"
| "is_fin NaN = False"

fun np_add :: "npfloat \<Rightarrow> npfloat \<Rightarrow> npfloat" where
  "np_add (Fin x) (Fin y) = Fin (x + y)"
| "np_add NaN b = NaN"
| "np_add a NaN = NaN"
| "np_add PInf NInf = NaN"
| "np_add NInf PInf = NaN"
| "np_add PInf b = PInf"
| "np_add a PInf = PInf"
| "np_add NInf b = NInf"
| "np_add a NInf = NInf"

fun np_neg :: "npfloat \<Rightarrow> npfloat" where
  "np_neg (Fin x) = Fin (- x)"
| "np_neg PInf = NInf"
| "np_neg NInf = PInf"
| "np_neg NaN = NaN"

definition np_sub :: "npfloat \<Rightarrow> npfloat \<Rightarrow> npfloat" where
  "np_sub a b = np_add a (np_neg b)"

text \<open>The infinity with the sign of \<open>x\<close>; \<open>0 * inf\<close> is NaN.\<close>

definition signed_inf :: "real \<Rightarrow> npfloat" where
  "signed_inf x = (if x = 0 then NaN else if 0 < x then PInf else NInf)"

fun np_mul :: "npfloat \<Rightarrow> npfloat \<Rightarrow> npfloat" where
  "np_mul (Fin x) (Fin y) = Fin (x * y)"
| "np_mul NaN b = NaN"
| "np_mul a NaN = NaN"
| "np_mul (Fin x) PInf = signed_inf x"
| "np_mul (Fin x) NInf = signed_inf (- x)"
| "np_mul PInf (Fin y) = signed_inf y"
| "np_mul NInf (Fin y) = signed_inf (- y)"
| "np_mul PInf PInf = PInf"
| "np_mul NInf NInf = PInf"
| "np_mul PInf NInf = NInf"
| "np_mul NInf PInf = NInf"

text \<open>
  Division: a finite value by zero is \<open>nan\<close> (for \<open>0 / 0\<close>) or an infinity,
  a finite value by an infinity is zero, an infinity by an infinity is \<open>nan\<close>.
  The zero divisor counts as \<open>+0.0\<close>.
\<close>

fun np_div :: "npfloat \<Rightarrow> npfloat \<Rightarrow> npfloat" where
  "np_div (Fin x) (Fin y) = (if y = 0 then signed_inf x else Fin (x / y))"
| "np_div NaN b = NaN"
| "np_div a NaN = NaN"
| "np_div (Fin x) PInf = Fin 0"
| "np_div (Fin x) NInf = Fin 0"
| "np_div PInf (Fin y) = (if 0 \<le> y then PInf else NInf)"
| "np_div NInf (Fin y) = (if 0 \<le> y then NInf else PInf)"
| "np_div PInf PInf = NaN"
| "np_div PInf NInf = NaN"
| "np_div NInf PInf = NaN"
| "np_div NInf NInf = NaN"

fun np_log :: "npfloat \<Rightarrow> npfloat" where
  "np_log (Fin x) = (if 0 < x then Fin (ln x) else if x = 0 then NInf else NaN)"
| "np_log PInf = PInf"
| "np_log NInf = NaN"
| "np_log NaN = NaN"

fun np_exp :: "npfloat \<Rightarrow> npfloat" where
  "np_exp (Fin x) = Fin (exp x)"
| "np_exp PInf = PInf"
| "np_exp NInf = Fin 0"
| "np_exp NaN = NaN"

text \<open>\<open>np.sum\<close> and the product of the entries of a one-dimensional array.\<close>

fun np_sum :: "npfloat list \<Rightarrow> npfloat" where
  "np_sum [] = Fin 0"
| "np_sum (x # xs) = np_add x (np_sum xs)"

fun np_prod :: "npfloat list \<Rightarrow> npfloat" where
  "np_prod [] = Fin 1"
| "np_prod (x # xs) = np_mul x (np_prod xs)"

text \<open>
  A two-dimensional array is its shape and its entries by index. Only entries inside the
  shape are ever read by the model; every read that numpy would refuse is an \<open>error\<close>.
  A one-dimensional array is a list.
\<close>

datatype 'a ndarray2 = NdArray (nrows: nat) (ncols: nat) (ent: "nat \<Rightarrow> nat \<Rightarrow> 'a")

definition of_rows :: "'a list list \<Rightarrow> 'a ndarray2" where
  "of_rows rs = NdArray (length rs) (case rs of [] \<Rightarrow> 0 | r # _ \<Rightarrow> length r) (\<lambda>i j. rs ! i ! j)"

definition lift2 :: "real ndarray2 \<Rightarrow> npfloat ndarray2" where
  "lift2 M = NdArray (nrows M) (ncols M) (\<lambda>i j. Fin (ent M i j))"

text \<open>\<open>M[:, j]\<close> for \<open>j\<close> inside the shape, and \<open>M[i]\<close>.\<close>

definition column :: "'a ndarray2 \<Rightarrow> nat \<Rightarrow> 'a list" where
  "column M j = map (\<lambda>i. ent M i j) [0..<nrows M]"

definition row :: "'a ndarray2 \<Rightarrow> nat \<Rightarrow> 'a list" where
  "row M i = map (\<lambda>j. ent M i j) [0..<ncols M]"

text \<open>\<open>np.ones((r, c))\<close>.\<close>

definition np_ones2 :: "nat \<Rightarrow> nat \<Rightarrow> npfloat ndarray2" where
  "np_ones2 r c = NdArray r c (\<lambda>i j. Fin 1)"

text \<open>
  Elementwise product of two one-dimensional arrays with numpy's broadcasting: equal
  lengths, or one operand of length 1 is stretched; anything else is a ValueError.
\<close>

definition np_multiply :: "npfloat list \<Rightarrow> npfloat list \<Rightarrow> error + npfloat list" where
  "np_multiply xs ys =
     (if length xs = length ys then Inr (map2 np_mul xs ys)
      else if length xs = 1 then Inr (map (np_mul (hd xs)) ys)
      else if length ys = 1 then Inr (map (\<lambda>x. np_mul x (hd ys)) xs)
      else Inl ValueError)"

text \<open>\<open>v @ M\<close> for one-dimensional \<open>v\<close> and two-dimensional \<open>M\<close>.\<close>

definition vec_matmul :: "npfloat list \<Rightarrow> npfloat ndarray2 \<Rightarrow> error + npfloat list" where
  "vec_matmul v M =
     (if length v \<noteq> nrows M then Inl ValueError
      else Inr (map (\<lambda>j. np_sum (map (\<lambda>i. np_mul (v ! i) (ent M i j)) [0..<nrows M]))
                    [0..<ncols M]))"

text \<open>\<open>M @ v\<close> for two-dimensional \<open>M\<close> and one-dimensional \<open>v\<close>.\<close>

definition mat_vecmul :: "npfloat ndarray2 \<Rightarrow> npfloat list \<Rightarrow> error + npfloat list" where
  "mat_vecmul M v =
     (if length v \<noteq> ncols M then Inl ValueError
      else Inr (map (\<lambda>i. np_sum (map (\<lambda>j. np_mul (ent M i j) (v ! j)) [0..<ncols M]))
                    [0..<nrows M]))"

text \<open>\<open>u @ v\<close> for two one-dimensional arrays.\<close>

definition np_dot :: "npfloat list \<Rightarrow> npfloat list \<Rightarrow> error + npfloat" where
  "np_dot u v =
     (if length u \<noteq> length v then Inl ValueError else Inr (np_sum (map2 np_mul u v)))"

text \<open>
  \<open>M[:, j] = v\<close>: the column index must be inside the shape, and \<open>v\<close> must have one
  entry per row or be of length 1 (then it is broadcast).
\<close>

definition set_column :: "npfloat ndarray2 \<Rightarrow> nat \<Rightarrow> npfloat list \<Rightarrow> error + npfloat ndarray2" where
  "set_column M j v =
     (if ncols M \<le> j then Inl IndexError
      else if length v = nrows M then
        Inr (NdArray (nrows M) (ncols M) (\<lambda>i k. if k = j \<and> i < nrows M then v ! i else ent M i k))
      else if length v = 1 then
        Inr (NdArray (nrows M) (ncols M) (\<lambda>i k. if k = j \<and> i < nrows M then hd v else ent M i k))
      else Inl ValueError)"

text \<open>\<open>M[:, :-1]\<close> (all columns but the last; of an array with no column, itself).\<close>

definition drop_last_col :: "'a ndarray2 \<Rightarrow> 'a ndarray2" where
  "drop_last_col M = NdArray (nrows M) (ncols M - 1) (ent M)"

text \<open>\<open>M[:, -1]\<close>: an IndexError when \<open>M\<close> has no column.\<close>

definition last_col :: "'a ndarray2 \<Rightarrow> error + 'a list" where
  "last_col M = (if ncols M = 0 then Inl IndexError else Inr (column M (ncols M - 1)))"


section \<open>The Markov chain\<close>

record MarkovChain =
  q :: "npfloat list"
  A :: "npfloat ndarray2"
  nStates :: nat
  is_finite :: bool

text \<open>
  \<open>__init__\<close> stores its two arguments, reads the row count of the transition matrix and
  compares the two entries of its shape. It has no raise and no assert.
\<close>

definition MarkovChain_init :: "npfloat list \<Rightarrow> npfloat ndarray2 \<Rightarrow> error + MarkovChain" where
  "MarkovChain_init initial_prob transition_prob =
     Inr \<lparr>q = initial_prob, A = transition_prob,
          nStates = nrows transition_prob,
          is_finite = (nrows transition_prob \<noteq> ncols transition_prob)\<rparr>"


section \<open>The scaled forward recursion\<close>

text \<open>
  The state of \<open>forward\<close> is the pair \<open>(a_hat, c)\<close>; \<open>c\<close>, an array of shape
  \<open>(k, 1)\<close> in the source, is the list of its \<open>k\<close> entries. The two branches of the
  source run the same statements, on \<open>A[:, :-1]\<close> and a \<open>c\<close> of one more entry for a
  finite chain, on \<open>A\<close> for an infinite one.

  Initialisation: \<open>a_temp = q * pX[:, 0]\<close>, \<open>c[0] = sum(a_temp)\<close>,
  \<open>a_hat[:, 0] = a_temp / c[0]\<close>.
\<close>

definition forward_first ::
  "MarkovChain \<Rightarrow> npfloat ndarray2 \<Rightarrow> npfloat ndarray2 \<times> npfloat list
     \<Rightarrow> error + npfloat ndarray2 \<times> npfloat list" where
  "forward_first mc pX s =
     (case s of (a_hat, c) \<Rightarrow>
        if ncols pX = 0 then Inl IndexError
        else case np_multiply (q mc) (column pX 0) of
          Inl e \<Rightarrow> Inl e
        | Inr a_temp \<Rightarrow>
            (let c' = c[0 := np_sum a_temp] in
             case set_column a_hat 0 (map (\<lambda>x. np_div x (c' ! 0)) a_temp) of
               Inl e \<Rightarrow> Inl e
             | Inr a_hat' \<Rightarrow> Inr (a_hat', c')))"

text \<open>
  One pass of the loop body at index \<open>i\<close>:
  \<open>a_temp = pX[:, i] * (a_hat[:, i-1] @ At)\<close>, \<open>c[i] = sum(a_temp)\<close>,
  \<open>a_hat[:, i] = a_temp / c[i]\<close>.
\<close>

definition forward_step ::
  "npfloat ndarray2 \<Rightarrow> npfloat ndarray2 \<Rightarrow> nat \<Rightarrow> npfloat ndarray2 \<times> npfloat list
     \<Rightarrow> error + npfloat ndarray2 \<times> npfloat list" where
  "forward_step At pX i s =
     (case s of (a_hat, c) \<Rightarrow>
        case vec_matmul (column a_hat (i - 1)) At of
          Inl e \<Rightarrow> Inl e
        | Inr pr \<Rightarrow>
            (case np_multiply (column pX i) pr of
               Inl e \<Rightarrow> Inl e
             | Inr a_temp \<Rightarrow>
                 (let c' = c[i := np_sum a_temp] in
                  case set_column a_hat i (map (\<lambda>x. np_div x (c' ! i)) a_temp) of
                    Inl e \<Rightarrow> Inl e
                  | Inr a_hat' \<Rightarrow> Inr (a_hat', c'))))"

fun forward_loop ::
  "npfloat ndarray2 \<Rightarrow> npfloat ndarray2 \<Rightarrow> nat list \<Rightarrow> npfloat ndarray2 \<times> npfloat list
     \<Rightarrow> error + npfloat ndarray2 \<times> npfloat list" where
  "forward_loop At pX [] s = Inr s"
| "forward_loop At pX (i # is) s =
     (case forward_step At pX i s of
        Inl e \<Rightarrow> Inl e
      | Inr s' \<Rightarrow> forward_loop At pX is s')"

definition forward ::
  "MarkovChain \<Rightarrow> npfloat ndarray2 \<Rightarrow> error + npfloat ndarray2 \<times> npfloat list" where
  "forward mc pX =
     (if is_finite mc then
        (let nStates' = nrows pX; nObservations = ncols pX in
         if nStates' \<noteq> nStates mc then Inl AssertionError
         else
           case forward_first mc pX
                  (np_ones2 nStates' nObservations, replicate (nObservations + 1) (Fin 1)) of
             Inl e \<Rightarrow> Inl e
           | Inr s0 \<Rightarrow>
               (case forward_loop (drop_last_col (A mc)) pX [1..<nObservations] s0 of
                  Inl e \<Rightarrow> Inl e
                | Inr (a_hat, c) \<Rightarrow>
                    (case last_col (A mc) of
                       Inl e \<Rightarrow> Inl e
                     | Inr a_end \<Rightarrow>
                         (case np_dot (column a_hat (nObservations - 1)) a_end of
                            Inl e \<Rightarrow> Inl e
                          | Inr v \<Rightarrow> Inr (a_hat, c[nObservations := v])))))
      else
        (let nStates' = nrows pX; nObservations = ncols pX in
         if nStates' \<noteq> nStates mc then Inl AssertionError
         else
           case forward_first mc pX
                  (np_ones2 nStates' nObservations, replicate nObservations (Fin 1)) of
             Inl e \<Rightarrow> Inl e
           | Inr s0 \<Rightarrow> forward_loop (A mc) pX [1..<nObservations] s0))"


section \<open>The scaled backward recursion\<close>

text \<open>
  Reads that numpy checks: \<open>M[i, j]\<close> and \<open>c[t]\<close> for indices that are not negative,
  \<open>c[-k]\<close> for \<open>k \<ge> 1\<close>, and the write \<open>M[i, j] = v\<close>.
\<close>

definition get2 :: "'a ndarray2 \<Rightarrow> nat \<Rightarrow> nat \<Rightarrow> error + 'a" where
  "get2 M i j = (if i < nrows M \<and> j < ncols M then Inr (ent M i j) else Inl IndexError)"

definition get1 :: "'a list \<Rightarrow> nat \<Rightarrow> error + 'a" where
  "get1 c t = (if t < length c then Inr (c ! t) else Inl IndexError)"

definition get_neg :: "'a list \<Rightarrow> nat \<Rightarrow> error + 'a" where
  "get_neg c k = (if k \<le> length c then Inr (c ! (length c - k)) else Inl IndexError)"

definition set_entry :: "'a ndarray2 \<Rightarrow> nat \<Rightarrow> nat \<Rightarrow> 'a \<Rightarrow> error + 'a ndarray2" where
  "set_entry M i j v =
     (if i < nrows M \<and> j < ncols M then
        Inr (NdArray (nrows M) (ncols M) (\<lambda>r k. if r = i \<and> k = j then v else ent M r k))
      else Inl IndexError)"

text \<open>\<open>np.zeros((r, c))\<close>.\<close>

definition np_zeros2 :: "nat \<Rightarrow> nat \<Rightarrow> npfloat ndarray2" where
  "np_zeros2 r c = NdArray r c (\<lambda>i j. Fin 0)"

text \<open>
  The innermost loop over \<open>j\<close>:
  \<open>sum_products += A[i, j] * pX[j, t + 1] * beta_hat[j, t + 1]\<close>.
\<close>

fun backward_inner ::
  "MarkovChain \<Rightarrow> npfloat ndarray2 \<Rightarrow> npfloat ndarray2 \<Rightarrow> nat \<Rightarrow> nat \<Rightarrow> nat list \<Rightarrow> npfloat
     \<Rightarrow> error + npfloat" where
  "backward_inner mc pX beta_hat t i [] sum_products = Inr sum_products"
| "backward_inner mc pX beta_hat t i (j # js) sum_products =
     (case get2 (A mc) i j of
        Inl e \<Rightarrow> Inl e
      | Inr a \<Rightarrow>
          (case get2 pX j (t + 1) of
             Inl e \<Rightarrow> Inl e
           | Inr b \<Rightarrow>
               (case get2 beta_hat j (t + 1) of
                  Inl e \<Rightarrow> Inl e
                | Inr be \<Rightarrow>
                    backward_inner mc pX beta_hat t i js
                      (np_add sum_products (np_mul (np_mul a b) be)))))"

text \<open>The loop over \<open>i\<close>: \<open>beta_hat[i, t] = sum_products / c[t]\<close>.\<close>

fun backward_rows ::
  "MarkovChain \<Rightarrow> npfloat list \<Rightarrow> npfloat ndarray2 \<Rightarrow> nat \<Rightarrow> nat list \<Rightarrow> npfloat ndarray2
     \<Rightarrow> error + npfloat ndarray2" where
  "backward_rows mc c pX t [] beta_hat = Inr beta_hat"
| "backward_rows mc c pX t (i # is) beta_hat =
     (case backward_inner mc pX beta_hat t i [0..<nStates mc] (Fin 0) of
        Inl e \<Rightarrow> Inl e
      | Inr sum_products \<Rightarrow>
          (case get1 c t of
             Inl e \<Rightarrow> Inl e
           | Inr ct \<Rightarrow>
               (case set_entry beta_hat i t (np_div sum_products ct) of
                  Inl e \<Rightarrow> Inl e
                | Inr beta_hat' \<Rightarrow> backward_rows mc c pX t is beta_hat')))"

text \<open>The loop over \<open>t\<close>, from \<open>nSamples - 2\<close> down to 0.\<close>

fun backward_loop ::
  "MarkovChain \<Rightarrow> npfloat list \<Rightarrow> npfloat ndarray2 \<Rightarrow> nat list \<Rightarrow> npfloat ndarray2
     \<Rightarrow> error + npfloat ndarray2" where
  "backward_loop mc c pX [] beta_hat = Inr beta_hat"
| "backward_loop mc c pX (t # ts) beta_hat =
     (case backward_rows mc c pX t [0..<nStates mc] beta_hat of
        Inl e \<Rightarrow> Inl e
      | Inr beta_hat' \<Rightarrow> backward_loop mc c pX ts beta_hat')"

text \<open>
  \<open>backward\<close>. The last column is \<open>A[:, -1] / (c[-1] * c[-2])\<close> for a finite chain
  and \<open>1.0 / c[-1]\<close> for an infinite one. It has no assertion on the shape of \<open>pX\<close>.
  As in \<open>forward\<close>, \<open>c\<close> is the list of the entries of an array of shape
  \<open>(k, 1)\<close>, so \<open>c[t]\<close> is a one-entry array there, and
  \<open>beta_hat[i, t] = sum_products / c[t]\<close> stores its entry: the conversion numpy makes
  up to version 2.3 (with a DeprecationWarning from 1.25 on); later versions refuse it.
\<close>

definition backward ::
  "MarkovChain \<Rightarrow> npfloat list \<Rightarrow> npfloat ndarray2 \<Rightarrow> error + npfloat ndarray2" where
  "backward mc c pX =
     (let nStates' = nStates mc; nSamples = ncols pX;
          beta_hat = np_zeros2 nStates' nSamples in
      case
        (if is_finite mc then
           (case last_col (A mc) of
              Inl e \<Rightarrow> Inl e
            | Inr a_end \<Rightarrow>
                (case set_column beta_hat (nSamples - 1) a_end of
                   Inl e \<Rightarrow> Inl e
                 | Inr b1 \<Rightarrow>
                     (case get_neg c 1 of
                        Inl e \<Rightarrow> Inl e
                      | Inr c1 \<Rightarrow>
                          (case get_neg c 2 of
                             Inl e \<Rightarrow> Inl e
                           | Inr c2 \<Rightarrow>
                               set_column b1 (nSamples - 1)
                                 (map (\<lambda>x. np_div x (np_mul c1 c2)) (column b1 (nSamples - 1)))))))
         else
           (case get_neg c 1 of
              Inl e \<Rightarrow> Inl e
            | Inr c1 \<Rightarrow> set_column beta_hat (nSamples - 1) [np_div (Fin 1) c1]))
      of
        Inl e \<Rightarrow> Inl e
      | Inr b \<Rightarrow> backward_loop mc c pX (rev [0..<nSamples - 1]) b)"


section \<open>The likelihood of an observation sequence\<close>

text \<open>
  The quantity the scale factors are compared with, written as the specification words it:
  the sum, over all state paths, of the initial probability times the transition
  probabilities times the \<open>pX\<close> entries along the path, times, for a finite chain, the
  probability of leaving the last state for END (column \<open>nStates\<close> of \<open>A\<close>).
\<close>

fun all_paths :: "nat \<Rightarrow> nat \<Rightarrow> nat list list" where
  "all_paths n 0 = [[]]"
| "all_paths n (Suc k) = concat (map (\<lambda>s. map ((#) s) (all_paths n k)) [0..<n])"

fun walk_weight :: "real ndarray2 \<Rightarrow> real ndarray2 \<Rightarrow> bool \<Rightarrow> nat \<Rightarrow> nat \<Rightarrow> nat list \<Rightarrow> real" where
  "walk_weight tr pX fin prev t [] = (if fin then ent tr prev (nrows tr) else 1)"
| "walk_weight tr pX fin prev t (s # ss) =
     ent tr prev s * ent pX s t * walk_weight tr pX fin s (Suc t) ss"

fun path_weight :: "real list \<Rightarrow> real ndarray2 \<Rightarrow> real ndarray2 \<Rightarrow> bool \<Rightarrow> nat list \<Rightarrow> real" where
  "path_weight ini tr pX fin [] = 1"
| "path_weight ini tr pX fin (s # ss) = ini ! s * ent pX s 0 * walk_weight tr pX fin s 1 ss"

definition likelihood :: "real list \<Rightarrow> real ndarray2 \<Rightarrow> real ndarray2 \<Rightarrow> real" where
  "likelihood ini tr pX =
     sum_list (map (path_weight ini tr pX (nrows tr \<noteq> ncols tr))
                   (all_paths (nrows tr) (ncols pX)))"


text \<open>
  The unscaled forward variable of the textbook recursion, and the total weight of the
  walks of \<open>k\<close> further states that leave state \<open>prev\<close> at time \<open>t\<close>; both serve
  the comparison of the path sum with the scale factors.
\<close>

fun alpha :: "real list \<Rightarrow> real ndarray2 \<Rightarrow> real ndarray2 \<Rightarrow> nat \<Rightarrow> nat \<Rightarrow> real" where
  "alpha ini tr pX 0 j = ini ! j * ent pX j 0"
| "alpha ini tr pX (Suc t) j =
     ent pX j (Suc t) * (\<Sum>i<nrows tr. alpha ini tr pX t i * ent tr i j)"

definition walks :: "real ndarray2 \<Rightarrow> real ndarray2 \<Rightarrow> bool \<Rightarrow> nat \<Rightarrow> nat \<Rightarrow> nat \<Rightarrow> real" where
  "walks tr pX fin prev t k =
     sum_list (map (walk_weight tr pX fin prev t) (all_paths (nrows tr) k))"


section \<open>Duration statistics\<close>

text \<open>\<open>np.diag(M)\<close>: the main diagonal, as long as the smaller side of \<open>M\<close>.\<close>

definition np_diag :: "'a ndarray2 \<Rightarrow> 'a list" where
  "np_diag M = map (\<lambda>i. ent M i i) [0..<min (nrows M) (ncols M)]"

text \<open>
  \<open>probStateDuration\<close>: \<open>t\<close> is the row \<open>0 .. tmax-1\<close> (empty when \<open>tmax \<le> 0\<close>),
  \<open>aii\<close> the diagonal as a column, and broadcasting makes entry \<open>(i, t)\<close> of the result
  \<open>exp (log aii[i] * t + log (1 - aii[i]))\<close>. No statement of it can raise.
\<close>

definition probStateDuration :: "MarkovChain \<Rightarrow> int \<Rightarrow> npfloat ndarray2" where
  "probStateDuration mc tmax =
     (let aii = np_diag (A mc) in
      NdArray (length aii) (nat tmax)
        (\<lambda>i t. np_exp (np_add (np_mul (np_log (aii ! i)) (Fin (real t)))
                               (np_log (np_sub (Fin 1) (aii ! i))))))"

text \<open>The closed form the specification names: \<open>P[D = t+1] = a^t (1 - a)\<close>.\<close>

definition geometric_pmf :: "real \<Rightarrow> nat \<Rightarrow> real" where
  "geometric_pmf a t = a ^ t * (1 - a)"

text \<open>\<open>np.eye(n)\<close> and \<open>M.T\<close>.\<close>

definition np_eye :: "nat \<Rightarrow> npfloat ndarray2" where
  "np_eye n = NdArray n n (\<lambda>i j. if i = j then Fin 1 else Fin 0)"

definition transpose2 :: "'a ndarray2 \<Rightarrow> 'a ndarray2" where
  "transpose2 M = NdArray (ncols M) (nrows M) (\<lambda>i j. ent M j i)"

text \<open>
  Broadcasting of one dimension, and \<open>X - Y\<close> for two-dimensional arrays: equal sizes, or
  a size of 1 is stretched; anything else is a ValueError.
\<close>

definition broadcast_dim :: "nat \<Rightarrow> nat \<Rightarrow> nat option" where
  "broadcast_dim a b =
     (if a = b then Some a else if a = 1 then Some b else if b = 1 then Some a else None)"

definition np_subtract2 :: "npfloat ndarray2 \<Rightarrow> npfloat ndarray2 \<Rightarrow> error + npfloat ndarray2" where
  "np_subtract2 X Y =
     (case broadcast_dim (nrows X) (nrows Y) of
        None \<Rightarrow> Inl ValueError
      | Some r \<Rightarrow>
          (case broadcast_dim (ncols X) (ncols Y) of
             None \<Rightarrow> Inl ValueError
           | Some c \<Rightarrow>
               Inr (NdArray r c
                     (\<lambda>i j. np_sub (ent X (if nrows X = 1 then 0 else i) (if ncols X = 1 then 0 else j))
                                    (ent Y (if nrows Y = 1 then 0 else i) (if ncols Y = 1 then 0 else j))))))"

text \<open>
  The loop of \<open>probDuration\<close> on the state \<open>(pD, pSt)\<close>:
  \<open>pD[t] = sum(pSt)\<close>, \<open>pSt = A.T @ pSt\<close>.
\<close>

fun probDuration_loop ::
  "MarkovChain \<Rightarrow> nat list \<Rightarrow> npfloat list \<times> npfloat list \<Rightarrow> error + npfloat list \<times> npfloat list" where
  "probDuration_loop mc [] s = Inr s"
| "probDuration_loop mc (t # ts) s =
     (case s of (pD, pSt) \<Rightarrow>
        case mat_vecmul (transpose2 (A mc)) pSt of
          Inl e \<Rightarrow> Inl e
        | Inr pSt' \<Rightarrow> probDuration_loop mc ts (pD[t := np_sum pSt], pSt'))"

text \<open>
  \<open>probDuration\<close>: \<open>np.zeros(tmax)\<close> refuses a negative size; for a finite chain
  \<open>pSt = (np.eye(nStates) - A.T) @ q\<close>, with the whole of \<open>A\<close> transposed, then the loop.
\<close>

definition probDuration :: "MarkovChain \<Rightarrow> int \<Rightarrow> error + npfloat list" where
  "probDuration mc tmax =
     (if tmax < 0 then Inl ValueError
      else
        (let pD = replicate (nat tmax) (Fin 0) in
         if is_finite mc then
           (case np_subtract2 (np_eye (nStates mc)) (transpose2 (A mc)) of
              Inl e \<Rightarrow> Inl e
            | Inr M \<Rightarrow>
                (case mat_vecmul M (q mc) of
                   Inl e \<Rightarrow> Inl e
                 | Inr pSt \<Rightarrow>
                     (case probDuration_loop mc [0..<nat tmax] (pD, pSt) of
                        Inl e \<Rightarrow> Inl e
                      | Inr (pD', pSt') \<Rightarrow> Inr pD')))
         else Inr pD))"


section \<open>Sampling a state sequence\<close>

text \<open>
  \<open>np.random.choice(a, p=p)\<close> as numpy documents it, on the uniform variate \<open>u\<close> of
  \<open>[0, 1)\<close> that the generator supplies for the call: a ValueError for an empty
  population, for a \<open>p\<close> of another size, for a \<open>p\<close> whose sum is not a number, with a
  negative entry, or whose sum is further from 1 than \<open>sqrt eps = 2^-26\<close>; otherwise the
  element of \<open>a\<close> at the position where \<open>u\<close> falls in the normalised cumulative
  sums of \<open>p\<close>.
\<close>

fun the_real :: "npfloat \<Rightarrow> real" where
  "the_real (Fin x) = x"
| "the_real PInf = 0"
| "the_real NInf = 0"
| "the_real NaN = 0"

fun cumsum_from :: "real \<Rightarrow> real list \<Rightarrow> real list" where
  "cumsum_from acc [] = []"
| "cumsum_from acc (x # xs) = (acc + x) # cumsum_from (acc + x) xs"

definition searchsorted_right :: "real list \<Rightarrow> real \<Rightarrow> nat" where
  "searchsorted_right cdf u = length (takeWhile (\<lambda>c. c \<le> u) cdf)"

definition np_random_choice :: "nat list \<Rightarrow> npfloat list \<Rightarrow> real \<Rightarrow> error + nat" where
  "np_random_choice a p u =
     (if a = [] then Inl ValueError
      else if length p \<noteq> length a then Inl ValueError
      else case np_sum p of
        Fin s \<Rightarrow>
          (if \<exists>x \<in> set p. the_real x < 0 then Inl ValueError
           else if \<bar>s - 1\<bar> > 1 / 2 ^ 26 then Inl ValueError
           else
             (let idx = searchsorted_right (map (\<lambda>c. c / s) (cumsum_from 0 (map the_real p))) u
              in if idx < length a then Inr (a ! idx) else Inl IndexError))
      | PInf \<Rightarrow> Inl ValueError
      | NInf \<Rightarrow> Inl ValueError
      | NaN \<Rightarrow> Inl ValueError)"

text \<open>\<open>M[i]\<close> for a row index that is not negative.\<close>

definition get_row :: "'a ndarray2 \<Rightarrow> nat \<Rightarrow> error + 'a list" where
  "get_row M i = (if i < nrows M then Inr (row M i) else Inl IndexError)"

text \<open>
  The two loops of \<open>rand\<close>; \<open>u i\<close> is the variate of the draw made at loop index
  \<open>i\<close> (\<open>u 0\<close> that of the first draw). At index \<open>i\<close> the list \<open>S\<close> has \<open>i\<close>
  entries, each at least 1. The loop of a finite chain returns \<open>S\<close> as soon as the END
  index \<open>nStates + 1\<close> is drawn.
\<close>

fun rand_loop_infinite ::
  "MarkovChain \<Rightarrow> (nat \<Rightarrow> real) \<Rightarrow> nat list \<Rightarrow> nat list \<Rightarrow> error + nat list" where
  "rand_loop_infinite mc u [] S = Inr S"
| "rand_loop_infinite mc u (i # is) S =
     (case get_row (A mc) (S ! (i - 1) - 1) of
        Inl e \<Rightarrow> Inl e
      | Inr p \<Rightarrow>
          (case np_random_choice [1..<nStates mc + 1] p (u i) of
             Inl e \<Rightarrow> Inl e
           | Inr next_state \<Rightarrow> rand_loop_infinite mc u is (S @ [next_state])))"

fun rand_loop_finite ::
  "MarkovChain \<Rightarrow> (nat \<Rightarrow> real) \<Rightarrow> nat list \<Rightarrow> nat list \<Rightarrow> error + nat list" where
  "rand_loop_finite mc u [] S = Inr S"
| "rand_loop_finite mc u (i # is) S =
     (case get_row (A mc) (S ! (i - 1) - 1) of
        Inl e \<Rightarrow> Inl e
      | Inr p \<Rightarrow>
          (case np_random_choice [1..<nStates mc + 2] p (u i) of
             Inl e \<Rightarrow> Inl e
           | Inr next_state \<Rightarrow>
               if next_state = nStates mc + 1 then Inr S
               else rand_loop_finite mc u is (S @ [next_state])))"

text \<open>
  \<open>rand\<close>. In both branches \<open>return S\<close> stands inside \<open>if tmax > 1:\<close>; with
  \<open>tmax \<le> 1\<close> control leaves the branch, reaches the end of the function, and the
  call returns \<open>None\<close>.
\<close>

definition rand :: "MarkovChain \<Rightarrow> int \<Rightarrow> (nat \<Rightarrow> real) \<Rightarrow> error + nat list option" where
  "rand mc tmax u =
     (if \<not> is_finite mc then
        (case np_random_choice [1..<nStates mc + 1] (q mc) (u 0) of
           Inl e \<Rightarrow> Inl e
         | Inr s1 \<Rightarrow>
             if tmax > 1 then
               (case rand_loop_infinite mc u [1..<nat tmax] [s1] of
                  Inl e \<Rightarrow> Inl e
                | Inr S \<Rightarrow> Inr (Some S))
             else Inr None)
      else
        (case np_random_choice [1..<nStates mc + 1] (q mc) (u 0) of
           Inl e \<Rightarrow> Inl e
         | Inr s1 \<Rightarrow>
             if tmax > 1 then
               (case rand_loop_finite mc u [1..<nat tmax] [s1] of
                  Inl e \<Rightarrow> Inl e
                | Inr S \<Rightarrow> Inr (Some S))
             else Inr None))"


section \<open>The equations a forward result satisfies\<close>

text \<open>
  The transition columns the loop of \<open>forward\<close> reads, and the unnormalised vector
  \<open>a_temp\<close> of time step \<open>t\<close>, read off a finished \<open>a_hat\<close>: \<open>q * pX[:, 0]\<close> at
  step 0, \<open>pX[:, t] * (a_hat[:, t-1] @ A_used)\<close> after it.
\<close>

definition A_used :: "MarkovChain \<Rightarrow> npfloat ndarray2" where
  "A_used mc = (if is_finite mc then drop_last_col (A mc) else A mc)"

definition first_atemp :: "npfloat list \<Rightarrow> npfloat ndarray2 \<Rightarrow> npfloat list" where
  "first_atemp q0 pX = map2 np_mul q0 (column pX 0)"

definition step_atemp ::
  "npfloat ndarray2 \<Rightarrow> npfloat ndarray2 \<Rightarrow> npfloat ndarray2 \<Rightarrow> nat \<Rightarrow> npfloat list" where
  "step_atemp At pX a_hat i =
     map2 np_mul (column pX i)
       (map (\<lambda>j. np_sum (map (\<lambda>k. np_mul (column a_hat (i - 1) ! k) (ent At k j)) [0..<nrows At]))
            [0..<ncols At])"

definition fwd_atemp ::
  "npfloat list \<Rightarrow> npfloat ndarray2 \<Rightarrow> npfloat ndarray2 \<Rightarrow> npfloat ndarray2 \<Rightarrow> nat
     \<Rightarrow> npfloat list" where
  "fwd_atemp q0 At pX a_hat t = (if t = 0 then first_atemp q0 pX else step_atemp At pX a_hat t)"

text \<open>
  Step \<open>t\<close> of a pair \<open>(a_hat, c)\<close> is as \<open>forward\<close> leaves it: \<open>c[t]\<close> is the sum
  of \<open>a_temp\<close> and column \<open>t\<close> of \<open>a_hat\<close> is \<open>a_temp / c[t]\<close>. The loop invariant
  says so for every step up to \<open>k\<close>, together with the shapes.
\<close>

definition fwd_sat ::
  "npfloat list \<Rightarrow> npfloat ndarray2 \<Rightarrow> npfloat ndarray2 \<Rightarrow> npfloat ndarray2 \<Rightarrow> npfloat list
     \<Rightarrow> nat \<Rightarrow> bool" where
  "fwd_sat q0 At pX a_hat c t \<longleftrightarrow>
     c ! t = np_sum (fwd_atemp q0 At pX a_hat t)
     \<and> column a_hat t = map (\<lambda>x. np_div x (c ! t)) (fwd_atemp q0 At pX a_hat t)"

definition fwd_inv ::
  "npfloat list \<Rightarrow> npfloat ndarray2 \<Rightarrow> npfloat ndarray2 \<Rightarrow> nat \<Rightarrow> nat
     \<Rightarrow> npfloat ndarray2 \<times> npfloat list \<Rightarrow> bool" where
  "fwd_inv q0 At pX L k s \<longleftrightarrow>
     (case s of (a_hat, c) \<Rightarrow>
        nrows a_hat = nrows pX \<and> ncols a_hat = ncols pX \<and> length c = L
        \<and> (\<forall>t\<le>k. fwd_sat q0 At pX a_hat c t))"

text \<open>The result of \<open>forward\<close> with \<open>a_hat\<close> listed column by column.\<close>

definition forward_columns ::
  "MarkovChain \<Rightarrow> npfloat ndarray2 \<Rightarrow> error + npfloat list list \<times> npfloat list" where
  "forward_columns mc pX =
     (case forward mc pX of
        Inl e \<Rightarrow> Inl e
      | Inr (a_hat, c) \<Rightarrow> Inr (map (column a_hat) [0..<ncols a_hat], c))"


section \<open>The forward-backward sum\<close>

text \<open>
  The value the innermost loop of \<open>backward\<close> leaves in \<open>sum_products\<close> for time
  \<open>t\<close> and state \<open>i\<close>, read off a finished \<open>beta_hat\<close>.
\<close>

definition inner_sum :: "MarkovChain \<Rightarrow> npfloat ndarray2 \<Rightarrow> npfloat ndarray2 \<Rightarrow> nat \<Rightarrow> nat \<Rightarrow> npfloat" where
  "inner_sum mc pX beta_hat t i =
     foldl (\<lambda>sp j. np_add sp (np_mul (np_mul (ent (A mc) i j) (ent pX j (t + 1))) (ent beta_hat j (t + 1))))
           (Fin 0) [0..<nStates mc]"

text \<open>
  The quantity of the cross-check identity, \<open>sum over i of a_hat[i,t] * beta_hat[i,t] * c[t]\<close>,
  and its values for all time steps when \<open>backward\<close> is run on the scale factors that
  \<open>forward\<close> returns.
\<close>

definition fb_sum :: "npfloat ndarray2 \<Rightarrow> npfloat ndarray2 \<Rightarrow> npfloat list \<Rightarrow> nat \<Rightarrow> npfloat" where
  "fb_sum a_hat beta_hat c t =
     np_sum (map (\<lambda>i. np_mul (np_mul (ent a_hat i t) (ent beta_hat i t)) (c ! t)) [0..<nrows a_hat])"

definition forward_backward_sums :: "MarkovChain \<Rightarrow> npfloat ndarray2 \<Rightarrow> error + npfloat list" where
  "forward_backward_sums mc pX =
     (case forward mc pX of
        Inl e \<Rightarrow> Inl e
      | Inr (a_hat, c) \<Rightarrow>
          (case backward mc c pX of
             Inl e \<Rightarrow> Inl e
           | Inr beta_hat \<Rightarrow> Inr (map (fb_sum a_hat beta_hat c) [0..<ncols pX])))"

text \<open>numpy's \<open>==\<close> on floats: \<open>nan\<close> equals nothing, itself included.\<close>

definition np_equal :: "npfloat \<Rightarrow> npfloat \<Rightarrow> bool" where
  "np_equal a b = (a \<noteq> NaN \<and> b \<noteq> NaN \<and> a = b)"


section \<open>Construction\<close>

text \<open>
  C6 (as the code has it). Construction never fails and validates nothing: for every
  \<open>q\<close> and every two-dimensional \<open>A\<close>, whatever their sizes, it returns the model
  that stores both, with \<open>nStates\<close> the row count of \<open>A\<close> and \<open>is_finite\<close> true
  exactly when \<open>A\<close> is not square.
\<close>

theorem init_no_validation:
  "\<exists>mc. MarkovChain_init q0 A0 = Inr mc \<and> q mc = q0 \<and> A mc = A0
        \<and> nStates mc = nrows A0 \<and> is_finite mc = (nrows A0 \<noteq> ncols A0)"
  by (simp add: MarkovChain_init_def)

text \<open>
  C6 as stated fails: a \<open>q\<close> of one entry with a transition matrix of two rows is
  accepted.
\<close>

theorem init_shape_mismatch_accepted:
  "nrows (of_rows [[Fin (1/2), Fin (1/2)], [Fin (1/2), Fin (1/2)]]) \<noteq> length [Fin 1]
   \<and> MarkovChain_init [Fin 1] (of_rows [[Fin (1/2), Fin (1/2)], [Fin (1/2), Fin (1/2)]])
       = Inr \<lparr>q = [Fin 1], A = of_rows [[Fin (1/2), Fin (1/2)], [Fin (1/2), Fin (1/2)]],
              nStates = 2, is_finite = False\<rparr>"
  by (simp add: MarkovChain_init_def of_rows_def)


section \<open>Forward: the shape assertion\<close>

text \<open>
  C9. For every model and every matrix \<open>pX\<close> whose row count differs from the model's
  \<open>nStates\<close>, \<open>forward\<close> returns no result: it stops at its assertion with an
  AssertionError.
\<close>

theorem forward_row_mismatch:
  "nrows pX \<noteq> nStates mc \<Longrightarrow> forward mc pX = Inl AssertionError"
  by (simp add: forward_def Let_def)

theorem forward_row_mismatch_witness:
  "nrows (of_rows [[Fin 1]]) \<noteq> nStates \<lparr>q = [Fin 1, Fin 0], A = of_rows [[Fin 1, Fin 0], [Fin 0, Fin 1]], nStates = 2, is_finite = False\<rparr>
   \<and> forward \<lparr>q = [Fin 1, Fin 0], A = of_rows [[Fin 1, Fin 0], [Fin 0, Fin 1]], nStates = 2, is_finite = False\<rparr>
        (of_rows [[Fin 1]]) = Inl AssertionError"
proof -
  have h: "nrows (of_rows [[Fin 1]]) \<noteq> nStates \<lparr>q = [Fin 1, Fin 0], A = of_rows [[Fin 1, Fin 0], [Fin 0, Fin 1]], nStates = 2, is_finite = False\<rparr>"
    by (simp add: of_rows_def)
  show ?thesis using h forward_row_mismatch [OF h] by simp
qed

section \<open>Duration statistics: what the code computes\<close>

lemma lift2_simps [simp]:
  "nrows (lift2 M) = nrows M" "ncols (lift2 M) = ncols M" "ent (lift2 M) i j = Fin (ent M i j)"
  by (simp_all add: lift2_def)

lemma exp_log_geometric:
  "0 < a \<Longrightarrow> a < 1 \<Longrightarrow> exp (ln a * real t + ln (1 - a)) = geometric_pmf a t"
  by (simp add: geometric_pmf_def exp_add exp_of_nat2_mult)

text \<open>
  The closed form in exact arithmetic. For every model with real entries whose transition
  matrix has at least as many columns as rows (square, or with the END column) and whose
  diagonal entries lie strictly between 0 and 1, and every positive \<open>tmax\<close>,
  \<open>probStateDuration tmax\<close> is an \<open>nStates \<times> tmax\<close> array whose entry for state
  \<open>i\<close> and column \<open>t\<close> is, with the real logarithm and exponential, the geometric
  probability \<open>a\<^sub>i\<^sub>i ^ t * (1 - a\<^sub>i\<^sub>i)\<close>. The float64 entry is this value up to the
  rounding of \<open>np.log\<close>, the product, the sum and \<open>np.exp\<close>
  (\<open>0.12500000000000003\<close> for \<open>a = 0.5\<close>, \<open>t = 2\<close>); the shape is exact.
\<close>

theorem probStateDuration_geometric:
  assumes init: "MarkovChain_init q0 (lift2 A0) = Inr mc"
    and shape: "nrows A0 \<le> ncols A0"
    and diag: "\<forall>i<nrows A0. 0 < ent A0 i i \<and> ent A0 i i < 1"
    and tmax: "0 < tmax"
  shows "nrows (probStateDuration mc tmax) = nStates mc
       \<and> ncols (probStateDuration mc tmax) = nat tmax
       \<and> (\<forall>i<nStates mc. \<forall>t<nat tmax.
            ent (probStateDuration mc tmax) i t = Fin (ent A0 i i ^ t * (1 - ent A0 i i)))"
proof -
  from init have mc: "A mc = lift2 A0" "nStates mc = nrows A0"
    by (auto simp: MarkovChain_init_def)
  have len: "length (np_diag (lift2 A0)) = nrows A0"
    using shape by (simp add: np_diag_def)
  have nth: "np_diag (lift2 A0) ! i = Fin (ent A0 i i)" if "i < nrows A0" for i
    using that shape by (simp add: np_diag_def)
  have entry: "ent (probStateDuration mc tmax) i t = Fin (ent A0 i i ^ t * (1 - ent A0 i i))"
    if i: "i < nrows A0" for i t
  proof -
    from diag i have a: "0 < ent A0 i i" "ent A0 i i < 1" by auto
    then show ?thesis
      using exp_log_geometric [OF a, of t]
      by (simp add: probStateDuration_def Let_def mc nth [OF i] np_sub_def geometric_pmf_def)
  qed
  show ?thesis
    using entry by (simp add: probStateDuration_def Let_def mc len)
qed

theorem probStateDuration_geometric_witness:
  "MarkovChain_init [Fin 1, Fin 0] (lift2 (of_rows [[1/2, 1/2], [1/4, 3/4]]))
     = Inr \<lparr>q = [Fin 1, Fin 0], A = lift2 (of_rows [[1/2, 1/2], [1/4, 3/4]]), nStates = 2, is_finite = False\<rparr>
   \<and> nrows (of_rows [[1/2, 1/2], [1/4, 3/4::real]]) \<le> ncols (of_rows [[1/2, 1/2], [1/4, 3/4::real]])
   \<and> 0 < ent (of_rows [[1/2, 1/2], [1/4, 3/4::real]]) 0 0 \<and> ent (of_rows [[1/2, 1/2], [1/4, 3/4::real]]) 0 0 < 1
   \<and> 0 < ent (of_rows [[1/2, 1/2], [1/4, 3/4::real]]) 1 1 \<and> ent (of_rows [[1/2, 1/2], [1/4, 3/4::real]]) 1 1 < 1
   \<and> ent (probStateDuration \<lparr>q = [Fin 1, Fin 0], A = lift2 (of_rows [[1/2, 1/2], [1/4, 3/4]]), nStates = 2, is_finite = False\<rparr> 3) 1 2
       = Fin (9/64)"
proof -
  let ?A = "of_rows [[1/2, 1/2], [1/4, 3/4::real]]"
  let ?mc = "\<lparr>q = [Fin 1, Fin 0], A = lift2 ?A, nStates = 2, is_finite = False\<rparr>"
  have h1: "MarkovChain_init [Fin 1, Fin 0] (lift2 ?A) = Inr ?mc"
    by (simp add: MarkovChain_init_def lift2_def of_rows_def)
  have h2: "nrows ?A \<le> ncols ?A" by (simp add: of_rows_def)
  have h3: "\<forall>i<nrows ?A. 0 < ent ?A i i \<and> ent ?A i i < 1"
    by (simp add: of_rows_def less_Suc_eq numeral_2_eq_2)
  have h4: "(0::int) < 3" by simp
  have "ent (probStateDuration ?mc 3) 1 2 = Fin (ent ?A 1 1 ^ 2 * (1 - ent ?A 1 1))"
    using probStateDuration_geometric [OF h1 h2 h3 h4] by simp
  then have "ent (probStateDuration ?mc 3) 1 2 = Fin (9/64)"
    by (simp add: of_rows_def power2_eq_square)
  moreover have "0 < ent ?A 0 0 \<and> ent ?A 0 0 < 1 \<and> 0 < ent ?A 1 1 \<and> ent ?A 1 1 < 1"
    by (simp add: of_rows_def)
  ultimately show ?thesis using h1 h2 by blast
qed



text \<open>For an infinite-duration chain \<open>probDuration\<close> returns \<open>tmax\<close> zeros.\<close>

lemma probDuration_infinite:
  "\<not> is_finite mc \<Longrightarrow> 0 \<le> tmax \<Longrightarrow> probDuration mc tmax = Inr (replicate (nat tmax) (Fin 0))"
  by (simp add: probDuration_def Let_def)

text \<open>
  C5, the behaviour of the code. \<open>probDuration\<close> subtracts the whole of \<open>A\<close>
  transposed, \<open>(nStates + 1) \<times> nStates\<close> for a finite chain, from the
  \<open>nStates \<times> nStates\<close> identity. For every finite-duration model of the documented shape
  (\<open>nStates \<ge> 1\<close> rows, \<open>nStates + 1\<close> columns, \<open>q\<close> of \<open>nStates\<close> entries) and
  every positive \<open>tmax\<close> the call ends in a ValueError: the two shapes do not broadcast
  when \<open>nStates \<ge> 2\<close>, and with one state the first \<open>A.T @ pSt\<close> multiplies a
  \<open>2 \<times> 1\<close> array with a vector of two entries. No array \<open>pD\<close> is returned.
\<close>

theorem probDuration_finite_fails:
  assumes init: "MarkovChain_init q0 A0 = Inr mc"
    and shape: "ncols A0 = nrows A0 + 1" "0 < nrows A0" "length q0 = nrows A0"
    and tmax: "0 < tmax"
  shows "probDuration mc tmax = Inl ValueError"
proof -
  from init shape have mc: "A mc = A0" "q mc = q0" "nStates mc = nrows A0" "is_finite mc"
    by (auto simp: MarkovChain_init_def)
  show ?thesis
  proof (cases "nrows A0 = 1")
    case False
    with shape have "broadcast_dim (nrows A0) (Suc (nrows A0)) = None"
      by (simp add: broadcast_dim_def)
    then show ?thesis
      using tmax shape by (simp add: probDuration_def Let_def mc np_subtract2_def np_eye_def transpose2_def)
  next
    case True
    from tmax obtain k where k: "nat tmax = Suc k" by (cases "nat tmax") auto
    have upt: "[0..<nat tmax] = 0 # [1..<Suc k]" by (simp add: k upt_conv_Cons)
    show ?thesis
      using tmax shape True
      by (simp add: probDuration_def Let_def mc np_subtract2_def np_eye_def transpose2_def
          broadcast_dim_def mat_vecmul_def upt del: upt_Suc)
  qed
qed

theorem probDuration_finite_fails_witness:
  "MarkovChain_init [Fin (3/5), Fin (2/5)]
      (of_rows [[Fin (1/2), Fin (1/5), Fin (3/10)], [Fin (1/10), Fin (3/5), Fin (3/10)]])
     = Inr \<lparr>q = [Fin (3/5), Fin (2/5)],
            A = of_rows [[Fin (1/2), Fin (1/5), Fin (3/10)], [Fin (1/10), Fin (3/5), Fin (3/10)]],
            nStates = 2, is_finite = True\<rparr>
   \<and> probDuration \<lparr>q = [Fin (3/5), Fin (2/5)],
            A = of_rows [[Fin (1/2), Fin (1/5), Fin (3/10)], [Fin (1/10), Fin (3/5), Fin (3/10)]],
            nStates = 2, is_finite = True\<rparr> 3 = Inl ValueError"
proof -
  let ?A = "of_rows [[Fin (1/2), Fin (1/5), Fin (3/10)], [Fin (1/10), Fin (3/5), Fin (3/10)]]"
  let ?q = "[Fin (3/5), Fin (2/5)]"
  let ?mc = "\<lparr>q = ?q, A = ?A, nStates = 2, is_finite = True\<rparr>"
  have h1: "MarkovChain_init ?q ?A = Inr ?mc"
    by (simp add: MarkovChain_init_def of_rows_def)
  have h2: "ncols ?A = nrows ?A + 1" by (simp add: of_rows_def)
  have h3: "0 < nrows ?A" by (simp add: of_rows_def)
  have h4: "length ?q = nrows ?A" by (simp add: of_rows_def)
  have h5: "(0::int) < 3" by simp
  from probDuration_finite_fails [OF h1 h2 h3 h4 h5] h1 show ?thesis by blast
qed


section \<open>Sampling: the sequence of length one\<close>

text \<open>
  With \<open>tmax \<ge> 2\<close> a call of \<open>rand\<close> that returns, returns a sequence of state
  indices of \<open>1..nStates\<close> without the END index, of length \<open>tmax\<close> for an infinite
  chain and between 1 and \<open>tmax\<close> for a finite one.
\<close>

lemma np_random_choice_mem: "np_random_choice a p u = Inr s \<Longrightarrow> s \<in> set a"
  by (auto simp: np_random_choice_def Let_def split: if_splits npfloat.splits)

lemma rand_loop_infinite_props:
  "rand_loop_infinite mc u is S = Inr S' \<Longrightarrow>
   length S' = length S + length is \<and> set S' \<subseteq> set S \<union> {1..nStates mc}"
proof (induction "is" arbitrary: S)
  case Nil
  then show ?case by simp
next
  case (Cons i "is")
  from Cons.prems obtain p s where
    s: "np_random_choice [1..<nStates mc + 1] p (u i) = Inr s"
    and rest: "rand_loop_infinite mc u is (S @ [s]) = Inr S'"
    by (auto split: sum.splits)
  from np_random_choice_mem [OF s] have "s \<in> {1..nStates mc}" by auto
  with Cons.IH [OF rest] show ?case by auto
qed

lemma rand_loop_finite_props:
  "rand_loop_finite mc u is S = Inr S' \<Longrightarrow>
   length S \<le> length S' \<and> length S' \<le> length S + length is
   \<and> set S' \<subseteq> set S \<union> {1..nStates mc}"
proof (induction "is" arbitrary: S)
  case Nil
  then show ?case by simp
next
  case (Cons i "is")
  from Cons.prems obtain p s where
    s: "np_random_choice [1..<nStates mc + 2] p (u i) = Inr s"
    and rest: "(if s = nStates mc + 1 then Inr S else rand_loop_finite mc u is (S @ [s])) = Inr S'"
    by (auto split: sum.splits)
  show ?case
  proof (cases "s = nStates mc + 1")
    case True
    with rest show ?thesis by simp
  next
    case False
    with np_random_choice_mem [OF s] have "s \<in> {1..nStates mc}" by auto
    moreover from rest False have "rand_loop_finite mc u is (S @ [s]) = Inr S'" by simp
    from Cons.IH [OF this] have "length (S @ [s]) \<le> length S'"
      "length S' \<le> length (S @ [s]) + length is" "set S' \<subseteq> set (S @ [s]) \<union> {1..nStates mc}"
      by simp_all
    ultimately show ?thesis by auto
  qed
qed

lemma rand_tmax_ge_2:
  assumes "1 < tmax" and "rand mc tmax u = Inr r"
  shows "\<exists>S. r = Some S \<and> set S \<subseteq> {1..nStates mc} \<and> nStates mc + 1 \<notin> set S
           \<and> (if is_finite mc then 1 \<le> length S \<and> length S \<le> nat tmax
               else length S = nat tmax)"
proof (cases "is_finite mc")
  case False
  from assms False obtain s1 S where
    s1: "np_random_choice [1..<nStates mc + 1] (q mc) (u 0) = Inr s1"
    and loop: "rand_loop_infinite mc u [1..<nat tmax] [s1] = Inr S" and r: "r = Some S"
    by (auto simp: rand_def split: sum.splits)
  from np_random_choice_mem [OF s1] have "s1 \<in> {1..nStates mc}" by auto
  with rand_loop_infinite_props [OF loop] assms(1) r False show ?thesis by auto
next
  case True
  from assms True obtain s1 S where
    s1: "np_random_choice [1..<nStates mc + 1] (q mc) (u 0) = Inr s1"
    and loop: "rand_loop_finite mc u [1..<nat tmax] [s1] = Inr S" and r: "r = Some S"
    by (auto simp: rand_def split: sum.splits)
  from np_random_choice_mem [OF s1] have "s1 \<in> {1..nStates mc}" by auto
  with rand_loop_finite_props [OF loop] assms(1) r True show ?thesis by auto
qed

text \<open>With \<open>tmax = 1\<close> no call of \<open>rand\<close> returns a sequence, whatever the model.\<close>

lemma rand_tmax_1_no_sequence: "rand mc 1 u \<noteq> Inr (Some S)"
  by (simp add: rand_def split: sum.splits)

text \<open>
  C4, at \<open>tmax = 1\<close>. For the one-state infinite chain \<open>q = [1]\<close>, \<open>A = [[1]]\<close> and for
  the finite chain \<open>q = [0.6, 0.4]\<close>, \<open>A = [[0.5, 0.2, 0.3], [0.1, 0.6, 0.3]]\<close> the
  first draw succeeds and \<open>rand 1\<close> returns \<open>None\<close>, not a sequence of one state.
\<close>

theorem rand_tmax_1_returns_None:
  "rand \<lparr>q = [Fin 1], A = of_rows [[Fin 1]], nStates = 1, is_finite = False\<rparr> 1 (\<lambda>k. 0) = Inr None
   \<and> rand \<lparr>q = [Fin (3/5), Fin (2/5)],
            A = of_rows [[Fin (1/2), Fin (1/5), Fin (3/10)], [Fin (1/10), Fin (3/5), Fin (3/10)]],
            nStates = 2, is_finite = True\<rparr> 1 (\<lambda>k. 0) = Inr None"
  by (simp add: rand_def np_random_choice_def searchsorted_right_def)

section \<open>Forward: the loop and its invariant\<close>

lemma length_column [simp]: "length (column M j) = nrows M"
  by (simp add: column_def)

lemma nth_column [simp]: "i < nrows M \<Longrightarrow> column M j ! i = ent M i j"
  by (simp add: column_def)

lemma length_step_atemp:
  "ncols At = nrows pX \<Longrightarrow> length (step_atemp At pX a_hat i) = nrows pX"
  by (simp add: step_atemp_def)

lemma forward_step_ok:
  assumes sh: "nrows a_hat = nrows pX" "ncols a_hat = ncols pX"
    and At: "nrows At = nrows pX" "ncols At = nrows pX"
    and i: "i < ncols pX"
  shows "forward_step At pX i (a_hat, c) =
     Inr (NdArray (nrows pX) (ncols pX)
            (\<lambda>r k. if k = i \<and> r < nrows pX
                    then map (\<lambda>x. np_div x (c[i := np_sum (step_atemp At pX a_hat i)] ! i)) (step_atemp At pX a_hat i) ! r
                    else ent a_hat r k),
          c[i := np_sum (step_atemp At pX a_hat i)])"
proof -
  let ?pr = "map (\<lambda>j. np_sum (map (\<lambda>k. np_mul (column a_hat (i - Suc 0) ! k) (ent At k j)) [0..<nrows At]))
            [0..<ncols At]"
  have vm: "vec_matmul (column a_hat (i - Suc 0)) At = Inr ?pr"
    using sh At by (simp add: vec_matmul_def)
  have mul: "np_multiply (column pX i) ?pr = Inr (step_atemp At pX a_hat i)"
    using At by (simp add: np_multiply_def step_atemp_def)
  have len: "length (step_atemp At pX a_hat i) = nrows pX"
    using At by (simp add: length_step_atemp)
  show ?thesis
    using sh i len by (simp add: forward_step_def vm mul set_column_def Let_def)
qed

lemma column_NdArray_other:
  "nrows M = r \<Longrightarrow> t \<noteq> j \<Longrightarrow>
   column (NdArray r c (\<lambda>i k. if k = j \<and> i < r then f i else ent M i k)) t = column M t"
  by (simp add: column_def)

lemma column_NdArray_same:
  "length v = r \<Longrightarrow>
   column (NdArray r c (\<lambda>i k. if k = j \<and> i < r then v ! i else ent M i k)) j = v"
  by (auto simp: column_def intro!: nth_equalityI)

lemma fwd_atemp_cong:
  "(t \<noteq> 0 \<Longrightarrow> column a' (t - 1) = column a_hat (t - 1)) \<Longrightarrow>
   fwd_atemp q0 At pX a' t = fwd_atemp q0 At pX a_hat t"
  by (simp add: fwd_atemp_def step_atemp_def)

lemma forward_step_inv:
  assumes inv: "fwd_inv q0 At pX L k (a_hat, c)"
    and At: "nrows At = nrows pX" "ncols At = nrows pX"
    and k: "Suc k < ncols pX" "Suc k < L"
  shows "\<exists>s'. forward_step At pX (Suc k) (a_hat, c) = Inr s' \<and> fwd_inv q0 At pX L (Suc k) s'"
proof -
  from inv have sh: "nrows a_hat = nrows pX" "ncols a_hat = ncols pX" "length c = L"
    and sat: "\<And>t. t \<le> k \<Longrightarrow> fwd_sat q0 At pX a_hat c t"
    by (auto simp: fwd_inv_def)
  define atm where "atm = step_atemp At pX a_hat (Suc k)"
  define c' where "c' = c[Suc k := np_sum atm]"
  define v where "v = map (\<lambda>x. np_div x (c' ! Suc k)) atm"
  define a' where "a' = NdArray (nrows pX) (ncols pX)
            (\<lambda>r j. if j = Suc k \<and> r < nrows pX then v ! r else ent a_hat r j)"
  have step: "forward_step At pX (Suc k) (a_hat, c) = Inr (a', c')"
    unfolding a'_def v_def c'_def atm_def using forward_step_ok [OF sh(1,2) At k(1), of c] by simp
  have lenv: "length v = nrows pX" using At by (simp add: v_def atm_def length_step_atemp)
  have sh': "nrows a' = nrows pX" "ncols a' = ncols pX" "length c' = L"
    using sh by (simp_all add: a'_def c'_def)
  have col_other: "column a' t = column a_hat t" if "t \<noteq> Suc k" for t
    unfolding a'_def using sh that by (intro column_NdArray_other) auto
  have col_same: "column a' (Suc k) = v"
    unfolding a'_def using lenv by (rule column_NdArray_same)
  have atemp: "fwd_atemp q0 At pX a' t = fwd_atemp q0 At pX a_hat t" if "t \<le> Suc k" for t
    by (rule fwd_atemp_cong) (use that in \<open>auto intro!: col_other\<close>)
  have c_other: "c' ! t = c ! t" if "t \<noteq> Suc k" for t using that by (simp add: c'_def)
  have c_same: "c' ! Suc k = np_sum atm" using k sh by (simp add: c'_def)
  have at_eq: "fwd_atemp q0 At pX a' (Suc k) = atm"
    using atemp [OF le_refl] by (simp add: fwd_atemp_def atm_def)
  have "fwd_sat q0 At pX a' c' t" if t: "t \<le> Suc k" for t
  proof (cases "t = Suc k")
    case True
    show ?thesis
      unfolding fwd_sat_def True at_eq col_same using c_same by (simp add: v_def)
  next
    case False
    with t have tk: "t \<le> k" by simp
    show ?thesis
      using sat [OF tk] unfolding fwd_sat_def atemp [OF t] col_other [OF False] c_other [OF False] .
  qed
  then have "fwd_inv q0 At pX L (Suc k) (a', c')"
    using sh' by (simp add: fwd_inv_def)
  with step show ?thesis by blast
qed

lemma forward_loop_inv:
  assumes At: "nrows At = nrows pX" "ncols At = nrows pX"
  shows "fwd_inv q0 At pX L k s \<Longrightarrow> k + m < ncols pX \<Longrightarrow> k + m < L \<Longrightarrow>
         \<exists>s'. forward_loop At pX [Suc k..<Suc (k + m)] s = Inr s' \<and> fwd_inv q0 At pX L (k + m) s'"
proof (induction m arbitrary: k s)
  case 0
  then show ?case by simp
next
  case (Suc m)
  obtain a_hat c where s: "s = (a_hat, c)" by (cases s)
  from Suc.prems have k: "Suc k < ncols pX" "Suc k < L" by auto
  from forward_step_inv [OF Suc.prems(1) [unfolded s] At k]
  obtain s1 where s1: "forward_step At pX (Suc k) (a_hat, c) = Inr s1"
    and inv1: "fwd_inv q0 At pX L (Suc k) s1" by blast
  from Suc.IH [OF inv1] Suc.prems
  obtain s' where s': "forward_loop At pX [Suc (Suc k)..<Suc (Suc k + m)] s1 = Inr s'"
    and inv': "fwd_inv q0 At pX L (Suc k + m) s'" by auto
  have "[Suc k..<Suc (k + Suc m)] = Suc k # [Suc (Suc k)..<Suc (Suc k + m)]"
    by (simp add: upt_conv_Cons)
  then have "forward_loop At pX [Suc k..<Suc (k + Suc m)] s = Inr s'"
    using s1 s' s by simp
  with inv' show ?case by auto
qed

lemma np_ones2_simps [simp]:
  "nrows (np_ones2 r c) = r" "ncols (np_ones2 r c) = c" "ent (np_ones2 r c) i j = Fin 1"
  by (simp_all add: np_ones2_def)

lemma forward_first_inv:
  assumes q0: "length q0 = nrows pX" and T: "0 < ncols pX" and L: "0 < L"
  shows "\<exists>s'. forward_first \<lparr>q = q0, A = A0, nStates = n, is_finite = f\<rparr> pX
            (np_ones2 (nrows pX) (ncols pX), replicate L (Fin 1)) = Inr s'
          \<and> fwd_inv q0 At pX L 0 s'"
proof -
  define atm where "atm = first_atemp q0 pX"
  define c' where "c' = (replicate L (Fin 1))[0 := np_sum atm]"
  define v where "v = map (\<lambda>x. np_div x (c' ! 0)) atm"
  define a' where "a' = NdArray (nrows pX) (ncols pX)
            (\<lambda>r j. if j = 0 \<and> r < nrows pX then v ! r else ent (np_ones2 (nrows pX) (ncols pX)) r j)"
  have mul: "np_multiply q0 (column pX 0) = Inr atm"
    using q0 by (simp add: np_multiply_def first_atemp_def atm_def)
  have lenv: "length v = nrows pX" using q0 by (simp add: first_atemp_def v_def atm_def)
  then have lenat: "length atm = nrows pX" by (simp add: v_def)
  have first: "forward_first \<lparr>q = q0, A = A0, nStates = n, is_finite = f\<rparr> pX
            (np_ones2 (nrows pX) (ncols pX), replicate L (Fin 1)) = Inr (a', c')"
    using T lenat unfolding a'_def v_def c'_def
    by (simp add: forward_first_def mul set_column_def Let_def)
  have col_same: "column a' 0 = v"
    unfolding a'_def using lenv by (rule column_NdArray_same)
  have "c' ! 0 = np_sum atm" using L by (simp add: c'_def)
  then have "fwd_sat q0 At pX a' c' 0"
    unfolding fwd_sat_def col_same by (simp add: fwd_atemp_def v_def atm_def)
  then have "fwd_inv q0 At pX L 0 (a', c')"
    by (simp add: fwd_inv_def a'_def c'_def)
  with first show ?thesis by blast
qed

lemma fwd_sat_update_c:
  "t \<noteq> j \<Longrightarrow> fwd_sat q0 At pX a_hat (c[j := v]) t = fwd_sat q0 At pX a_hat c t"
  by (simp add: fwd_sat_def)

lemma forward_char:
  assumes init: "MarkovChain_init q0 A0 = Inr mc"
    and q0: "length q0 = nrows A0"
    and shape: "ncols A0 = nrows A0 \<or> ncols A0 = nrows A0 + 1"
    and pX: "nrows pX = nrows A0" "0 < ncols pX"
  shows "\<exists>a_hat c. forward mc pX = Inr (a_hat, c)
           \<and> nrows a_hat = nrows pX \<and> ncols a_hat = ncols pX
           \<and> length c = (if is_finite mc then ncols pX + 1 else ncols pX)
           \<and> (\<forall>t<ncols pX. fwd_sat q0 (A_used mc) pX a_hat c t)
           \<and> (is_finite mc \<longrightarrow>
                c ! ncols pX = np_sum (map2 np_mul (column a_hat (ncols pX - 1)) (column A0 (nrows A0))))"
proof -
  from init have mc: "mc = \<lparr>q = q0, A = A0, nStates = nrows A0, is_finite = (nrows A0 \<noteq> ncols A0)\<rparr>"
    by (simp add: MarkovChain_init_def)
  define T where "T = ncols pX"
  have T: "0 < T" using pX by (simp add: T_def)
  have upt: "Suc (0 + (T - 1)) = T" "0 + (T - 1) = T - 1" "Suc 0 = 1" "Suc (T - 1) = T"
    using T by simp_all
  have qn: "length q0 = nrows pX" using q0 pX by simp
  show ?thesis
  proof (cases "nrows A0 = ncols A0")
    case True
    then have fin: "\<not> is_finite mc" and Au: "A_used mc = A0" by (simp_all add: mc A_used_def)
    have At: "nrows A0 = nrows pX" "ncols A0 = nrows pX" using True pX by simp_all
    from forward_first_inv [OF qn pX(2) T, of A0 "nrows A0" "nrows A0 \<noteq> ncols A0" A0]
    obtain s0 where s0: "forward_first mc pX (np_ones2 (nrows pX) (ncols pX), replicate T (Fin 1)) = Inr s0"
      and inv0: "fwd_inv q0 A0 pX T 0 s0" unfolding mc by blast
    have "\<exists>s'. forward_loop A0 pX [Suc 0..<Suc (0 + (T - 1))] s0 = Inr s'
               \<and> fwd_inv q0 A0 pX T (0 + (T - 1)) s'"
      by (rule forward_loop_inv [OF At inv0]) (use T in \<open>simp_all add: T_def\<close>)
    then obtain s' where s': "forward_loop A0 pX [1..<T] s0 = Inr s'"
      and inv': "fwd_inv q0 A0 pX T (T - 1) s'" unfolding upt by blast
    obtain a_hat c where ac: "s' = (a_hat, c)" by (cases s')
    have "forward mc pX = Inr (a_hat, c)"
      using fin pX s0 s' ac by (simp add: forward_def Let_def mc T_def)
    moreover have "\<forall>t<ncols pX. fwd_sat q0 A0 pX a_hat c t"
      using inv' T by (auto simp: fwd_inv_def ac T_def)
    ultimately show ?thesis
      using inv' fin Au by (auto simp: fwd_inv_def ac T_def)
  next
    case False
    with shape have nc: "ncols A0 = nrows A0 + 1" by simp
    from False have fin: "is_finite mc" and Au: "A_used mc = drop_last_col A0"
      by (simp_all add: mc A_used_def)
    have At: "nrows (drop_last_col A0) = nrows pX" "ncols (drop_last_col A0) = nrows pX"
      using nc pX by (simp_all add: drop_last_col_def)
    have T1: "0 < T + 1" by simp
    from forward_first_inv [OF qn pX(2) T1, of A0 "nrows A0" "nrows A0 \<noteq> ncols A0" "drop_last_col A0"]
    obtain s0 where s0: "forward_first mc pX (np_ones2 (nrows pX) (ncols pX), replicate (T + 1) (Fin 1)) = Inr s0"
      and inv0: "fwd_inv q0 (drop_last_col A0) pX (T + 1) 0 s0" unfolding mc by blast
    have "\<exists>s'. forward_loop (drop_last_col A0) pX [Suc 0..<Suc (0 + (T - 1))] s0 = Inr s'
               \<and> fwd_inv q0 (drop_last_col A0) pX (T + 1) (0 + (T - 1)) s'"
      by (rule forward_loop_inv [OF At inv0]) (use T in \<open>simp_all add: T_def\<close>)
    then obtain s' where s': "forward_loop (drop_last_col A0) pX [1..<T] s0 = Inr s'"
      and inv': "fwd_inv q0 (drop_last_col A0) pX (T + 1) (T - 1) s'" unfolding upt by blast
    obtain a_hat c where ac: "s' = (a_hat, c)" by (cases s')
    from inv' have sh: "nrows a_hat = nrows pX" "ncols a_hat = ncols pX" "length c = T + 1"
      and sat: "\<And>t. t < T \<Longrightarrow> fwd_sat q0 (drop_last_col A0) pX a_hat c t"
      using T by (auto simp: fwd_inv_def ac)
    define v where "v = np_sum (map2 np_mul (column a_hat (T - 1)) (column A0 (nrows A0)))"
    have lc: "last_col A0 = Inr (column A0 (nrows A0))" using nc by (simp add: last_col_def)
    have dot: "np_dot (column a_hat (T - 1)) (column A0 (nrows A0)) = Inr v"
      using sh pX by (simp add: np_dot_def v_def)
    have fw: "forward mc pX = Inr (a_hat, c[T := v])"
      using fin pX s0 s' ac lc dot by (simp add: forward_def Let_def mc T_def)
    have "\<forall>t<ncols pX. fwd_sat q0 (drop_last_col A0) pX a_hat (c[T := v]) t"
      using sat by (simp add: fwd_sat_update_c T_def)
    moreover have "c[T := v] ! ncols pX = v" using sh by (simp add: T_def)
    ultimately show ?thesis
      using fw sh fin Au by (simp add: T_def v_def)
  qed
qed

lemma np_add_Fin_cases:
  "np_add a b = Fin x \<Longrightarrow> \<exists>u v. a = Fin u \<and> b = Fin v \<and> x = u + v"
  by (cases a; cases b) auto

lemma np_sum_map_Fin: "np_sum (map Fin rs) = Fin (sum_list rs)"
  by (induction rs) auto

lemma np_sum_Fin_cases:
  "np_sum xs = Fin x \<Longrightarrow> \<exists>rs. xs = map Fin rs \<and> sum_list rs = x"
proof (induction xs arbitrary: x)
  case Nil
  then show ?case by auto
next
  case (Cons a xs)
  from Cons.prems obtain u v where a: "a = Fin u" and v: "np_sum xs = Fin v" and x: "x = u + v"
    using np_add_Fin_cases [of a "np_sum xs" x] by auto
  from Cons.IH [OF v] obtain rs where "xs = map Fin rs" "sum_list rs = v" by blast
  then have "a # xs = map Fin (u # rs) \<and> sum_list (u # rs) = x" using a x by simp
  then show ?case by (intro exI [of _ "u # rs"])
qed

lemma np_sum_div_Fin:
  "x \<noteq> 0 \<Longrightarrow> np_sum (map (\<lambda>a. np_div a (Fin x)) (map Fin rs)) = Fin (sum_list rs / x)"
  by (induction rs) (simp_all add: add_divide_distrib)

lemma normalised_sum:
  assumes "np_sum xs = Fin x" and "x \<noteq> 0"
  shows "np_sum (map (\<lambda>a. np_div a (Fin x)) xs) = Fin 1"
proof -
  from np_sum_Fin_cases [OF assms(1)] obtain rs where rs: "xs = map Fin rs" "sum_list rs = x"
    by blast
  show ?thesis unfolding rs(1) np_sum_div_Fin [OF assms(2)] using rs(2) assms(2) by simp
qed

lemma divided_by_zero_not_finite:
  assumes "np_sum xs = Fin 0" and "i < length xs"
  shows "\<not> is_fin (map (\<lambda>a. np_div a (Fin 0)) xs ! i)"
proof -
  from np_sum_Fin_cases [OF assms(1)] obtain rs where rs: "xs = map Fin rs" by blast
  then show ?thesis using assms(2) by (simp add: signed_inf_def)
qed

lemma fwd_sat_column_sum:
  assumes "fwd_sat q0 At pX a_hat c t" and "c ! t = Fin x" and "x \<noteq> 0"
  shows "np_sum (column a_hat t) = Fin 1"
proof -
  from assms(1) have s: "np_sum (fwd_atemp q0 At pX a_hat t) = c ! t"
    and col: "column a_hat t = map (\<lambda>x. np_div x (c ! t)) (fwd_atemp q0 At pX a_hat t)"
    by (simp_all add: fwd_sat_def)
  show ?thesis unfolding col assms(2) by (rule normalised_sum) (use s assms in simp_all)
qed

lemma fwd_sat_zero_mass:
  assumes "fwd_sat q0 At pX a_hat c t" and "c ! t = Fin 0" and "i < nrows a_hat"
  shows "\<not> is_fin (ent a_hat i t)"
proof -
  from assms(1) have s: "np_sum (fwd_atemp q0 At pX a_hat t) = c ! t"
    and col: "column a_hat t = map (\<lambda>x. np_div x (c ! t)) (fwd_atemp q0 At pX a_hat t)"
    by (simp_all add: fwd_sat_def)
  have len: "length (fwd_atemp q0 At pX a_hat t) = nrows a_hat"
    using arg_cong [OF col, of length] by simp
  have "\<not> is_fin (map (\<lambda>a. np_div a (Fin 0)) (fwd_atemp q0 At pX a_hat t) ! i)"
    by (rule divided_by_zero_not_finite) (use s assms len in simp_all)
  then show ?thesis using col assms by (metis nth_column)
qed


section \<open>Forward: shapes and normalised columns\<close>

text \<open>
  Shapes, and the normalisation in exact arithmetic. For every model of the documented
  shape (\<open>q\<close> of \<open>nStates\<close> entries, \<open>A\<close> square or with one more column) and
  every \<open>pX\<close> with \<open>nStates\<close> rows and at least one column, \<open>forward\<close> returns a
  pair \<open>(a_hat, c)\<close>; \<open>a_hat\<close> is \<open>nStates \<times> nObservations\<close>, \<open>c\<close> has
  \<open>nObservations\<close> entries for an infinite chain and \<open>nObservations + 1\<close> for a
  finite one. These do not depend on the arithmetic. When every \<open>c[t]\<close>,
  \<open>t < nObservations\<close>, is a strictly positive number, every column of \<open>a_hat\<close>,
  being \<open>a_temp / sum(a_temp)\<close>, sums to 1 with exact division and summation; the
  float64 column sums to 1 up to rounding only.
\<close>

theorem forward_columns_sum_to_one:
  assumes init: "MarkovChain_init q0 A0 = Inr mc"
    and q0: "length q0 = nrows A0"
    and shape: "ncols A0 = nrows A0 \<or> ncols A0 = nrows A0 + 1"
    and pX: "nrows pX = nStates mc" "1 \<le> ncols pX"
  shows "\<exists>a_hat c. forward mc pX = Inr (a_hat, c)
           \<and> nrows a_hat = nStates mc \<and> ncols a_hat = ncols pX
           \<and> length c = (if is_finite mc then ncols pX + 1 else ncols pX)
           \<and> ((\<forall>t<ncols pX. \<exists>x>0. c ! t = Fin x)
                \<longrightarrow> (\<forall>t<ncols pX. np_sum (column a_hat t) = Fin 1))"
proof -
  from init have n: "nStates mc = nrows A0" by (auto simp: MarkovChain_init_def)
  have pX': "nrows pX = nrows A0" "0 < ncols pX" using pX n by simp_all
  from forward_char [OF init q0 shape pX']
  obtain a_hat c where fw: "forward mc pX = Inr (a_hat, c)"
    and sh: "nrows a_hat = nrows pX" "ncols a_hat = ncols pX"
      "length c = (if is_finite mc then ncols pX + 1 else ncols pX)"
    and sat: "\<And>t. t < ncols pX \<Longrightarrow> fwd_sat q0 (A_used mc) pX a_hat c t"
    by auto
  have "np_sum (column a_hat t) = Fin 1"
    if pos: "\<forall>t<ncols pX. \<exists>x>0. c ! t = Fin x" and t: "t < ncols pX" for t
  proof -
    from pos t obtain x where "0 < x" "c ! t = Fin x" by blast
    then show ?thesis using fwd_sat_column_sum [OF sat [OF t]] by simp
  qed
  then show ?thesis using fw sh pX by auto
qed

text \<open>
  The scenario of the specification: two states, \<open>q = [0.6, 0.4]\<close>,
  \<open>A = [[0.5, 0.2, 0.3], [0.1, 0.6, 0.3]]\<close>, \<open>pX\<close> a \<open>2 \<times> 3\<close> array of ones.
\<close>

lemma forward_spec_scenario:
  "forward_columns \<lparr>q = [Fin (3/5), Fin (2/5)],
       A = of_rows [[Fin (1/2), Fin (1/5), Fin (3/10)], [Fin (1/10), Fin (3/5), Fin (3/10)]],
       nStates = 2, is_finite = True\<rparr>
     (of_rows [[Fin 1, Fin 1, Fin 1], [Fin 1, Fin 1, Fin 1]])
   = Inr ([[Fin (3/5), Fin (2/5)], [Fin (17/35), Fin (18/35)], [Fin (103/245), Fin (142/245)]],
          [Fin 1, Fin (7/10), Fin (7/10), Fin (3/10)])"
  by (simp add: forward_columns_def forward_def forward_first_def forward_step_def np_multiply_def
      vec_matmul_def set_column_def np_dot_def last_col_def drop_last_col_def
      column_def of_rows_def Let_def upt_conv_Cons)

theorem forward_columns_sum_to_one_witness:
  "MarkovChain_init [Fin (3/5), Fin (2/5)]
      (of_rows [[Fin (1/2), Fin (1/5), Fin (3/10)], [Fin (1/10), Fin (3/5), Fin (3/10)]])
     = Inr \<lparr>q = [Fin (3/5), Fin (2/5)],
       A = of_rows [[Fin (1/2), Fin (1/5), Fin (3/10)], [Fin (1/10), Fin (3/5), Fin (3/10)]],
       nStates = 2, is_finite = True\<rparr>
   \<and> forward_columns \<lparr>q = [Fin (3/5), Fin (2/5)],
       A = of_rows [[Fin (1/2), Fin (1/5), Fin (3/10)], [Fin (1/10), Fin (3/5), Fin (3/10)]],
       nStates = 2, is_finite = True\<rparr>
        (of_rows [[Fin 1, Fin 1, Fin 1], [Fin 1, Fin 1, Fin 1]])
      = Inr ([[Fin (3/5), Fin (2/5)], [Fin (17/35), Fin (18/35)], [Fin (103/245), Fin (142/245)]],
             [Fin 1, Fin (7/10), Fin (7/10), Fin (3/10)])
   \<and> (\<exists>a_hat c. forward \<lparr>q = [Fin (3/5), Fin (2/5)],
       A = of_rows [[Fin (1/2), Fin (1/5), Fin (3/10)], [Fin (1/10), Fin (3/5), Fin (3/10)]],
       nStates = 2, is_finite = True\<rparr>
          (of_rows [[Fin 1, Fin 1, Fin 1], [Fin 1, Fin 1, Fin 1]]) = Inr (a_hat, c)
        \<and> nrows a_hat = 2 \<and> ncols a_hat = 3 \<and> length c = 4
        \<and> np_sum (column a_hat 0) = Fin 1 \<and> np_sum (column a_hat 1) = Fin 1
        \<and> np_sum (column a_hat 2) = Fin 1)"
proof -
  let ?q = "[Fin (3/5), Fin (2/5)]"
  let ?A = "of_rows [[Fin (1/2), Fin (1/5), Fin (3/10)], [Fin (1/10), Fin (3/5), Fin (3/10)]]"
  let ?mc = "\<lparr>q = ?q, A = ?A, nStates = 2, is_finite = True\<rparr>"
  let ?pX = "of_rows [[Fin 1, Fin 1, Fin 1], [Fin 1, Fin 1, Fin 1]]"
  have h1: "MarkovChain_init ?q ?A = Inr ?mc"
    by (simp add: MarkovChain_init_def of_rows_def)
  have h2: "length ?q = nrows ?A" by (simp add: of_rows_def)
  have h3: "ncols ?A = nrows ?A \<or> ncols ?A = nrows ?A + 1" by (simp add: of_rows_def)
  have h4: "nrows ?pX = nStates ?mc" by (simp add: of_rows_def)
  have h5: "1 \<le> ncols ?pX" by (simp add: of_rows_def)
  from forward_columns_sum_to_one [OF h1 h2 h3 h4 h5]
  obtain a_hat c where fw: "forward ?mc ?pX = Inr (a_hat, c)"
    and sh: "nrows a_hat = nStates ?mc" "ncols a_hat = ncols ?pX"
      "length c = (if is_finite ?mc then ncols ?pX + 1 else ncols ?pX)"
    and sums: "(\<forall>t<ncols ?pX. \<exists>x>0. c ! t = Fin x)
                \<longrightarrow> (\<forall>t<ncols ?pX. np_sum (column a_hat t) = Fin 1)"
    by blast
  have c: "c = [Fin 1, Fin (7/10), Fin (7/10), Fin (3/10)]"
    using forward_spec_scenario fw by (simp add: forward_columns_def)
  have nc: "ncols ?pX = 3" by (simp add: of_rows_def)
  have "\<exists>x>0. c ! t = Fin x" if "t < 3" for t
  proof -
    from that consider "t = 0" | "t = 1" | "t = 2" by linarith
    then show ?thesis
    proof cases
      case 1
      then show ?thesis by (intro exI [of _ 1]) (simp add: c)
    next
      case 2
      then show ?thesis by (intro exI [of _ "7/10"]) (simp add: c)
    next
      case 3
      then show ?thesis by (intro exI [of _ "7/10"]) (simp add: c)
    qed
  qed
  then have "\<forall>t<ncols ?pX. \<exists>x>0. c ! t = Fin x" unfolding nc by blast
  with sums have "\<forall>t<3. np_sum (column a_hat t) = Fin 1" unfolding nc by blast
  then have "np_sum (column a_hat 0) = Fin 1 \<and> np_sum (column a_hat 1) = Fin 1
        \<and> np_sum (column a_hat 2) = Fin 1" by simp
  moreover have "nrows a_hat = 2 \<and> ncols a_hat = 3 \<and> length c = 4"
    using sh nc by simp
  ultimately show ?thesis using h1 forward_spec_scenario fw by blast
qed


section \<open>Forward: a step of mass zero\<close>

text \<open>
  C7 (as the code has it). For every model of the documented shape and every \<open>pX\<close> with
  \<open>nStates\<close> rows and at least one column, \<open>forward\<close> returns a result and reports
  no error, and at every time step \<open>t\<close> whose mass \<open>c[t]\<close> is 0 no entry of column
  \<open>t\<close> of the returned \<open>a_hat\<close> is a finite number: each is \<open>nan\<close> or an infinity.
\<close>

theorem forward_zero_mass_returns:
  assumes init: "MarkovChain_init q0 A0 = Inr mc"
    and q0: "length q0 = nrows A0"
    and shape: "ncols A0 = nrows A0 \<or> ncols A0 = nrows A0 + 1"
    and pX: "nrows pX = nStates mc" "1 \<le> ncols pX"
  shows "\<exists>a_hat c. forward mc pX = Inr (a_hat, c)
           \<and> (\<forall>t<ncols pX. c ! t = Fin 0 \<longrightarrow> (\<forall>i<nStates mc. \<not> is_fin (ent a_hat i t)))"
proof -
  from init have n: "nStates mc = nrows A0" by (auto simp: MarkovChain_init_def)
  have pX': "nrows pX = nrows A0" "0 < ncols pX" using pX n by simp_all
  from forward_char [OF init q0 shape pX']
  obtain a_hat c where fw: "forward mc pX = Inr (a_hat, c)"
    and sh: "nrows a_hat = nrows pX"
    and sat: "\<And>t. t < ncols pX \<Longrightarrow> fwd_sat q0 (A_used mc) pX a_hat c t"
    by auto
  have "\<not> is_fin (ent a_hat i t)" if "t < ncols pX" "c ! t = Fin 0" "i < nStates mc" for t i
    using fwd_sat_zero_mass [OF sat [OF that(1)] that(2)] that(3) sh pX by simp
  then show ?thesis using fw by blast
qed

theorem forward_zero_mass_returns_witness:
  "MarkovChain_init [Fin 1, Fin 0] (of_rows [[Fin 1, Fin 0], [Fin 0, Fin 1]])
     = Inr \<lparr>q = [Fin 1, Fin 0], A = of_rows [[Fin 1, Fin 0], [Fin 0, Fin 1]], nStates = 2, is_finite = False\<rparr>
   \<and> (\<exists>a_hat c. forward \<lparr>q = [Fin 1, Fin 0], A = of_rows [[Fin 1, Fin 0], [Fin 0, Fin 1]], nStates = 2, is_finite = False\<rparr>
          (of_rows [[Fin 1, Fin 0], [Fin 1, Fin 1]]) = Inr (a_hat, c)
        \<and> c = [Fin 1, Fin 0]
        \<and> \<not> is_fin (ent a_hat 0 1) \<and> \<not> is_fin (ent a_hat 1 1))"
proof -
  let ?q = "[Fin 1, Fin 0]"
  let ?A = "of_rows [[Fin 1, Fin 0], [Fin 0, Fin 1]]"
  let ?mc = "\<lparr>q = ?q, A = ?A, nStates = 2, is_finite = False\<rparr>"
  let ?pX = "of_rows [[Fin 1, Fin 0], [Fin 1, Fin 1]]"
  have h1: "MarkovChain_init ?q ?A = Inr ?mc"
    by (simp add: MarkovChain_init_def of_rows_def)
  have h2: "length ?q = nrows ?A" by (simp add: of_rows_def)
  have h3: "ncols ?A = nrows ?A \<or> ncols ?A = nrows ?A + 1" by (simp add: of_rows_def)
  have h4: "nrows ?pX = nStates ?mc" by (simp add: of_rows_def)
  have h5: "1 \<le> ncols ?pX" by (simp add: of_rows_def)
  from forward_zero_mass_returns [OF h1 h2 h3 h4 h5]
  obtain a_hat c where fw: "forward ?mc ?pX = Inr (a_hat, c)"
    and z: "\<forall>t<ncols ?pX. c ! t = Fin 0 \<longrightarrow> (\<forall>i<nStates ?mc. \<not> is_fin (ent a_hat i t))"
    by blast
  have "forward_columns ?mc ?pX = Inr ([[Fin 1, Fin 0], [NaN, NaN]], [Fin 1, Fin 0])"
    by (simp add: forward_columns_def forward_def forward_first_def forward_step_def
        np_multiply_def vec_matmul_def set_column_def column_def of_rows_def Let_def
        signed_inf_def upt_conv_Cons)
  then have c: "c = [Fin 1, Fin 0]" using fw by (simp add: forward_columns_def)
  have "1 < ncols ?pX" "c ! 1 = Fin 0" by (simp_all add: c of_rows_def)
  with z have "\<forall>i<nStates ?mc. \<not> is_fin (ent a_hat i 1)" by blast
  then have "\<not> is_fin (ent a_hat 0 1) \<and> \<not> is_fin (ent a_hat 1 1)" by simp
  with h1 fw c show ?thesis by blast
qed

text \<open>
  C7 as stated fails: with \<open>q = [1, 0]\<close>, the identity as \<open>A\<close> and
  \<open>pX = [[0], [1]]\<close> the mass of step 0 is \<open>1 * 0 + 0 * 1 = 0\<close>, and \<open>forward\<close>
  returns \<open>c = [0]\<close> with the column \<open>[nan, nan]\<close>; it raises nothing.
\<close>

theorem forward_zero_mass_returns_nan:
  "forward_columns \<lparr>q = [Fin 1, Fin 0], A = of_rows [[Fin 1, Fin 0], [Fin 0, Fin 1]], nStates = 2, is_finite = False\<rparr>
     (of_rows [[Fin 0], [Fin 1]]) = Inr ([[NaN, NaN]], [Fin 0])"
  by (simp add: forward_columns_def forward_def forward_first_def np_multiply_def set_column_def
      column_def of_rows_def Let_def signed_inf_def upt_conv_Cons)

section \<open>Forward: the scale factors and the likelihood\<close>

lemma sum_list_upt_lessThan: "sum_list (map f [0..<n]) = sum f {..<n}"
  by (induction n) simp_all

lemma sum_list_map_concat_map:
  "sum_list (map f (concat (map g xs))) = sum_list (map (\<lambda>x. sum_list (map f (g x))) xs)"
  by (induction xs) simp_all

lemma walks_0: "walks tr pX fin prev t 0 = (if fin then ent tr prev (nrows tr) else 1)"
  by (simp add: walks_def)

lemma walks_Suc:
  "walks tr pX fin prev t (Suc k) =
     (\<Sum>s<nrows tr. ent tr prev s * ent pX s t * walks tr pX fin s (Suc t) k)"
proof -
  have "walks tr pX fin prev t (Suc k) =
      sum_list (map (\<lambda>s. sum_list (map (walk_weight tr pX fin prev t) (map ((#) s) (all_paths (nrows tr) k))))
                [0..<nrows tr])"
    by (simp add: walks_def sum_list_map_concat_map)
  also have "\<dots> = sum_list (map (\<lambda>s. ent tr prev s * ent pX s t * walks tr pX fin s (Suc t) k) [0..<nrows tr])"
    by (simp add: walks_def comp_def sum_list_const_mult)
  finally show ?thesis by (simp add: sum_list_upt_lessThan)
qed

lemma likelihood_walks:
  "ncols pX = Suc k \<Longrightarrow>
   likelihood ini tr pX =
     (\<Sum>j<nrows tr. alpha ini tr pX 0 j * walks tr pX (nrows tr \<noteq> ncols tr) j 1 k)"
proof -
  assume T: "ncols pX = Suc k"
  let ?fin = "nrows tr \<noteq> ncols tr"
  have "likelihood ini tr pX =
      sum_list (map (\<lambda>s. sum_list (map (path_weight ini tr pX ?fin) (map ((#) s) (all_paths (nrows tr) k))))
                [0..<nrows tr])"
    by (simp add: likelihood_def T sum_list_map_concat_map)
  also have "\<dots> = sum_list (map (\<lambda>s. alpha ini tr pX 0 s * walks tr pX ?fin s 1 k) [0..<nrows tr])"
    by (simp add: walks_def comp_def sum_list_const_mult)
  finally show ?thesis by (simp add: sum_list_upt_lessThan)
qed

lemma alpha_walks_step:
  "(\<Sum>j<nrows tr. alpha ini tr pX t j * walks tr pX fin j (Suc t) (Suc k)) =
   (\<Sum>j<nrows tr. alpha ini tr pX (Suc t) j * walks tr pX fin j (Suc (Suc t)) k)"
proof -
  have "(\<Sum>j<nrows tr. alpha ini tr pX t j * walks tr pX fin j (Suc t) (Suc k)) =
        (\<Sum>j<nrows tr. \<Sum>s<nrows tr.
            alpha ini tr pX t j * (ent tr j s * ent pX s (Suc t) * walks tr pX fin s (Suc (Suc t)) k))"
    by (simp add: walks_Suc sum_distrib_left)
  also have "\<dots> = (\<Sum>s<nrows tr. \<Sum>j<nrows tr.
            alpha ini tr pX t j * (ent tr j s * ent pX s (Suc t) * walks tr pX fin s (Suc (Suc t)) k))"
    by (rule sum.swap)
  also have "\<dots> = (\<Sum>s<nrows tr. alpha ini tr pX (Suc t) s * walks tr pX fin s (Suc (Suc t)) k)"
    by (rule sum.cong) (simp_all add: sum_distrib_left sum_distrib_right mult_ac)
  finally show ?thesis .
qed

lemma alpha_walks:
  "(\<Sum>j<nrows tr. alpha ini tr pX t j * walks tr pX fin j (Suc t) k) =
   (\<Sum>j<nrows tr. alpha ini tr pX (t + k) j * (if fin then ent tr j (nrows tr) else 1))"
proof (induction k arbitrary: t)
  case 0
  then show ?case by (simp add: walks_0)
next
  case (Suc k)
  show ?case using Suc.IH [of "Suc t"] by (simp add: alpha_walks_step)
qed

lemma likelihood_alpha:
  assumes "ncols pX = Suc k"
  shows "likelihood ini tr pX =
     (\<Sum>j<nrows tr. alpha ini tr pX k j * (if nrows tr \<noteq> ncols tr then ent tr j (nrows tr) else 1))"
  using likelihood_walks [OF assms, of ini tr]
    alpha_walks [where tr = tr and ini = ini and pX = pX and t = 0 and fin = "nrows tr \<noteq> ncols tr" and k = k]
  by simp

lemma np_sum_Fin_upt: "np_sum (map (\<lambda>j. Fin (f j)) [0..<n]) = Fin (\<Sum>j<n. f j)"
proof -
  have "map (\<lambda>j. Fin (f j)) [0..<n] = map Fin (map f [0..<n])" by simp
  then show ?thesis by (simp only: np_sum_map_Fin sum_list_upt_lessThan)
qed

lemma map_upt_cong: "(\<And>j. j < n \<Longrightarrow> f j = g j) \<Longrightarrow> map f [0..<n] = map g [0..<n]"
  by simp

lemma first_atemp_real:
  "length qr = nrows Xr \<Longrightarrow>
   first_atemp (map Fin qr) (lift2 Xr) = map (\<lambda>j. Fin (qr ! j * ent Xr j 0)) [0..<nrows Xr]"
  by (auto simp: first_atemp_def intro!: nth_equalityI)

lemma step_atemp_real:
  assumes At: "nrows At = n" "ncols At = n" "\<And>k j. ent At k j = Fin (ent Ar k j)"
    and Xr: "nrows Xr = n"
    and col: "column a_hat (i - 1) = map (\<lambda>k. Fin (g k)) [0..<n]"
  shows "step_atemp At (lift2 Xr) a_hat i =
           map (\<lambda>j. Fin (ent Xr j i * (\<Sum>k<n. g k * ent Ar k j))) [0..<n]"
proof -
  have inner: "np_sum (map (\<lambda>k. np_mul (column a_hat (i - Suc 0) ! k) (Fin (ent Ar k j))) [0..<n])
        = Fin (\<Sum>k<n. g k * ent Ar k j)" for j
  proof -
    have "map (\<lambda>k. np_mul (column a_hat (i - Suc 0) ! k) (Fin (ent Ar k j))) [0..<n]
        = map (\<lambda>k. Fin (g k * ent Ar k j)) [0..<n]"
      by (rule map_upt_cong) (use col in simp)
    then show ?thesis by (simp only: np_sum_Fin_upt)
  qed
  show ?thesis
    by (rule nth_equalityI) (simp_all add: step_atemp_def At inner Xr)
qed

lemma div_map_Fin:
  "x \<noteq> 0 \<Longrightarrow> map (\<lambda>v. np_div v (Fin x)) (map (\<lambda>j. Fin (f j)) xs) = map (\<lambda>j. Fin (f j / x)) xs"
  by simp

lemma fwd_alpha:
  assumes At: "nrows At = n" "ncols At = n" "\<And>k j. ent At k j = Fin (ent Ar k j)"
    and Ar: "nrows Ar = n"
    and qr: "length qr = n"
    and Xr: "nrows Xr = n"
    and sat: "\<And>t. t < T \<Longrightarrow> fwd_sat (map Fin qr) At (lift2 Xr) a_hat c t"
    and cx: "\<And>t. t < T \<Longrightarrow> c ! t = Fin (x t) \<and> x t \<noteq> 0"
  shows "t < T \<Longrightarrow>
         column a_hat t = map (\<lambda>j. Fin (alpha qr Ar Xr t j / (\<Prod>s\<le>t. x s))) [0..<n]
         \<and> (\<Sum>j<n. alpha qr Ar Xr t j) = (\<Prod>s\<le>t. x s)"
proof (induction t)
  case 0
  from sat [OF 0] cx [OF 0]
  have s: "Fin (x 0) = np_sum (first_atemp (map Fin qr) (lift2 Xr))"
    and col: "column a_hat 0 = map (\<lambda>v. np_div v (Fin (x 0))) (first_atemp (map Fin qr) (lift2 Xr))"
    and x0: "x 0 \<noteq> 0"
    by (simp_all add: fwd_sat_def fwd_atemp_def)
  have fa: "first_atemp (map Fin qr) (lift2 Xr) = map (\<lambda>j. Fin (alpha qr Ar Xr 0 j)) [0..<n]"
    using first_atemp_real [of qr Xr] qr Xr by simp
  have "x 0 = (\<Sum>j<n. alpha qr Ar Xr 0 j)"
    using s unfolding fa np_sum_Fin_upt by simp
  moreover have "column a_hat 0 = map (\<lambda>j. Fin (alpha qr Ar Xr 0 j / x 0)) [0..<n]"
    unfolding col fa using x0 by (rule div_map_Fin)
  ultimately show ?case by simp
next
  case (Suc t)
  then have t: "t < T" by simp
  let ?P = "\<Prod>s\<le>t. x s"
  from Suc.IH [OF t] have colt: "column a_hat t = map (\<lambda>j. Fin (alpha qr Ar Xr t j / ?P)) [0..<n]"
    and sumt: "(\<Sum>j<n. alpha qr Ar Xr t j) = ?P" by simp_all
  have P0: "?P \<noteq> 0" using cx t by (simp add: prod_zero_iff)
  from sat [OF Suc.prems] cx [OF Suc.prems]
  have s: "Fin (x (Suc t)) = np_sum (step_atemp At (lift2 Xr) a_hat (Suc t))"
    and col: "column a_hat (Suc t) =
        map (\<lambda>v. np_div v (Fin (x (Suc t)))) (step_atemp At (lift2 Xr) a_hat (Suc t))"
    and x0: "x (Suc t) \<noteq> 0"
    by (simp_all add: fwd_sat_def fwd_atemp_def)
  have "step_atemp At (lift2 Xr) a_hat (Suc t) =
      map (\<lambda>j. Fin (ent Xr j (Suc t) * (\<Sum>k<n. alpha qr Ar Xr t k / ?P * ent Ar k j))) [0..<n]"
    by (rule step_atemp_real [OF At Xr]) (simp add: colt)
  also have "\<dots> = map (\<lambda>j. Fin (alpha qr Ar Xr (Suc t) j / ?P)) [0..<n]"
    by (rule map_upt_cong) (simp add: Ar sum_divide_distrib [symmetric])
  finally have st: "step_atemp At (lift2 Xr) a_hat (Suc t) =
      map (\<lambda>j. Fin (alpha qr Ar Xr (Suc t) j / ?P)) [0..<n]" .
  have "x (Suc t) = (\<Sum>j<n. alpha qr Ar Xr (Suc t) j / ?P)"
    using s unfolding st np_sum_Fin_upt by simp
  then have xs: "x (Suc t) * ?P = (\<Sum>j<n. alpha qr Ar Xr (Suc t) j)"
    using P0 by (simp add: sum_divide_distrib [symmetric])
  have "column a_hat (Suc t) = map (\<lambda>j. Fin (alpha qr Ar Xr (Suc t) j / ?P / x (Suc t))) [0..<n]"
    unfolding col st using x0 by (rule div_map_Fin)
  then have "column a_hat (Suc t) = map (\<lambda>j. Fin (alpha qr Ar Xr (Suc t) j / (\<Prod>s\<le>Suc t. x s))) [0..<n]"
    by (simp add: mult.commute)
  with xs show ?case by (simp add: mult.commute)
qed

lemma np_prod_map_Fin: "np_prod (map Fin rs) = Fin (prod_list rs)"
  by (induction rs) auto

lemma prod_list_upt_lessThan: "prod_list (map f [0..<n]) = prod f {..<n}"
  by (induction n) (simp_all add: mult.commute)

lemma np_prod_Fin_upt: "np_prod (map (\<lambda>j. Fin (f j)) [0..<n]) = Fin (\<Prod>j<n. f j)"
proof -
  have "map (\<lambda>j. Fin (f j)) [0..<n] = map Fin (map f [0..<n])" by simp
  then show ?thesis by (simp only: np_prod_map_Fin prod_list_upt_lessThan)
qed

lemma list_all_Fin:
  "(\<And>t. t < length c \<Longrightarrow> \<exists>x. c ! t = Fin x) \<Longrightarrow>
   c = map (\<lambda>t. Fin (the_real (c ! t))) [0..<length c]"
proof (rule nth_equalityI)
  fix i assume a: "\<And>t. t < length c \<Longrightarrow> \<exists>x. c ! t = Fin x"
    and i: "i < length c"
  from a [OF i] obtain x where "c ! i = Fin x" by blast
  then show "c ! i = map (\<lambda>t. Fin (the_real (c ! t))) [0..<length c] ! i" using i by simp
qed simp

lemma A_used_real:
  assumes init: "MarkovChain_init q0 (lift2 Ar) = Inr mc"
    and shape: "ncols Ar = nrows Ar \<or> ncols Ar = nrows Ar + 1"
  shows "nrows (A_used mc) = nrows Ar" "ncols (A_used mc) = nrows Ar"
    "ent (A_used mc) k j = Fin (ent Ar k j)"
  using init shape by (auto simp: MarkovChain_init_def A_used_def drop_last_col_def)

lemma dot_column_real:
  assumes col: "column a_hat t = map (\<lambda>j. Fin (g j)) [0..<n]" and n: "nrows Ar = n"
  shows "np_sum (map2 np_mul (column a_hat t) (column (lift2 Ar) m)) = Fin (\<Sum>j<n. g j * ent Ar j m)"
proof -
  have "map2 np_mul (column a_hat t) (column (lift2 Ar) m) = map (\<lambda>j. Fin (g j * ent Ar j m)) [0..<n]"
    unfolding col by (rule nth_equalityI) (simp_all add: n)
  then show ?thesis by (simp only: np_sum_Fin_upt)
qed

text \<open>
  The scaled-forward identity in exact arithmetic. For every model with real entries of the
  documented shape, finite or infinite, and every real \<open>pX\<close> with \<open>nStates\<close> rows and
  at least one column, \<open>forward\<close> returns \<open>(a_hat, c)\<close>, and when every mass
  \<open>c[t]\<close>, \<open>t < nObservations\<close>, is strictly positive, the product of all entries of
  \<open>c\<close>, computed without rounding, is the likelihood: the sum over all state paths of
  the initial probability times the transition probabilities times the \<open>pX\<close> entries
  along the path (times the probability of the exit to END for a finite chain). In float64
  the two agree up to rounding only (\<open>0.14699999999999996\<close> against \<open>0.147\<close> on the
  scenario below).
\<close>

theorem forward_scale_product_is_likelihood:
  assumes init: "MarkovChain_init (map Fin qr) (lift2 Ar) = Inr mc"
    and qr: "length qr = nrows Ar"
    and shape: "ncols Ar = nrows Ar \<or> ncols Ar = nrows Ar + 1"
    and pX: "nrows Xr = nStates mc" "1 \<le> ncols Xr"
  shows "\<exists>a_hat c. forward mc (lift2 Xr) = Inr (a_hat, c)
           \<and> ((\<forall>t<ncols Xr. \<exists>x>0. c ! t = Fin x) \<longrightarrow> np_prod c = Fin (likelihood qr Ar Xr))"
proof -
  define n where "n = nrows Ar"
  from init have mcn: "nStates mc = n" and fin: "is_finite mc = (nrows Ar \<noteq> ncols Ar)"
    by (auto simp: MarkovChain_init_def n_def)
  have q0: "length (map Fin qr) = nrows (lift2 Ar)" using qr by simp
  have sh0: "ncols (lift2 Ar) = nrows (lift2 Ar) \<or> ncols (lift2 Ar) = nrows (lift2 Ar) + 1"
    using shape by simp
  have pX': "nrows (lift2 Xr) = nrows (lift2 Ar)" "0 < ncols (lift2 Xr)"
    using pX mcn by (simp_all add: n_def)
  from forward_char [OF init q0 sh0 pX']
  obtain a_hat c where fw: "forward mc (lift2 Xr) = Inr (a_hat, c)"
    and sh: "nrows a_hat = n" "length c = (if is_finite mc then ncols Xr + 1 else ncols Xr)"
    and sat: "\<And>t. t < ncols Xr \<Longrightarrow> fwd_sat (map Fin qr) (A_used mc) (lift2 Xr) a_hat c t"
    and last: "is_finite mc \<Longrightarrow>
        c ! ncols Xr = np_sum (map2 np_mul (column a_hat (ncols Xr - 1)) (column (lift2 Ar) n))"
    using pX mcn by (auto simp: n_def)
  have "np_prod c = Fin (likelihood qr Ar Xr)" if pos: "\<forall>t<ncols Xr. \<exists>x>0. c ! t = Fin x"
  proof -
    define x where "x t = the_real (c ! t)" for t
    have cx: "c ! t = Fin (x t) \<and> x t \<noteq> 0" if "t < ncols Xr" for t
      using pos that by (auto simp: x_def)
    from pX obtain k where k: "ncols Xr = Suc k" by (cases "ncols Xr") auto
    have At: "nrows (A_used mc) = n" "ncols (A_used mc) = n"
      "\<And>i j. ent (A_used mc) i j = Fin (ent Ar i j)"
      using A_used_real [OF init shape] by (simp_all add: n_def)
    have Xn: "nrows Xr = n" using pX mcn by simp
    have "k < ncols Xr" by (simp add: k)
    from fwd_alpha [OF At n_def [symmetric] qr [folded n_def] Xn sat cx this]
    have col: "column a_hat k = map (\<lambda>j. Fin (alpha qr Ar Xr k j / (\<Prod>s\<le>k. x s))) [0..<n]"
      and sum: "(\<Sum>j<n. alpha qr Ar Xr k j) = (\<Prod>s\<le>k. x s)" by simp_all
    have P0: "(\<Prod>s\<le>k. x s) \<noteq> 0" using cx k by (simp add: prod_zero_iff)
    have lik: "likelihood qr Ar Xr =
        (\<Sum>j<n. alpha qr Ar Xr k j * (if is_finite mc then ent Ar j n else 1))"
      using likelihood_alpha [OF k, of qr Ar] unfolding n_def fin by simp
    show ?thesis
    proof (cases "is_finite mc")
      case False
      then have len: "length c = Suc k" using sh k by simp
      have "c = map (\<lambda>t. Fin (x t)) [0..<Suc k]"
        unfolding x_def len [symmetric] by (rule list_all_Fin) (use cx len k in auto)
      then have "np_prod c = Fin (\<Prod>t<Suc k. x t)" by (simp only: np_prod_Fin_upt)
      then show ?thesis using False lik sum by (simp add: lessThan_Suc_atMost)
    next
      case True
      then have len: "length c = Suc (Suc k)" using sh k by simp
      have cT: "c ! Suc k = Fin (\<Sum>j<n. alpha qr Ar Xr k j / (\<Prod>s\<le>k. x s) * ent Ar j n)"
        using last [OF True] dot_column_real [OF col n_def [symmetric], of n] by (simp add: k)
      have "c = map (\<lambda>t. Fin (x t)) [0..<Suc (Suc k)]"
        unfolding x_def len [symmetric]
      proof (rule list_all_Fin)
        fix t assume "t < length c"
        then have "t < ncols Xr \<or> t = Suc k" using len k by auto
        then show "\<exists>x. c ! t = Fin x" using cx cT by auto
      qed
      then have "np_prod c = Fin (\<Prod>t<Suc (Suc k). x t)" by (simp only: np_prod_Fin_upt)
      moreover have "x (Suc k) = (\<Sum>j<n. alpha qr Ar Xr k j / (\<Prod>s\<le>k. x s) * ent Ar j n)"
        using cT by (simp add: x_def)
      moreover have "(\<Prod>s\<le>k. x s) * (\<Sum>j<n. alpha qr Ar Xr k j / (\<Prod>s\<le>k. x s) * ent Ar j n)
          = (\<Sum>j<n. alpha qr Ar Xr k j * ent Ar j n)"
        using P0 by (simp add: sum_distrib_left)
      ultimately show ?thesis using True lik by (simp add: lessThan_Suc_atMost)
    qed
  qed
  with fw show ?thesis by blast
qed

lemma likelihood_spec_scenario:
  "likelihood [3/5, 2/5] (of_rows [[1/2, 1/5, 3/10], [1/10, 3/5, 3/10]])
     (of_rows [[1, 1, 1], [1, 1, 1]]) = 147/1000"
  by (simp add: likelihood_def of_rows_def upt_conv_Cons)

lemma forward_spec_scenario_real:
  "forward_columns
     \<lparr>q = map Fin [3/5, 2/5], A = lift2 (of_rows [[1/2, 1/5, 3/10], [1/10, 3/5, 3/10]]),
       nStates = 2, is_finite = True\<rparr>
     (lift2 (of_rows [[1, 1, 1], [1, 1, 1]]))
   = Inr ([[Fin (3/5), Fin (2/5)], [Fin (17/35), Fin (18/35)], [Fin (103/245), Fin (142/245)]],
          [Fin 1, Fin (7/10), Fin (7/10), Fin (3/10)])"
  by (simp add: forward_columns_def forward_def forward_first_def forward_step_def np_multiply_def
      vec_matmul_def set_column_def np_dot_def last_col_def drop_last_col_def
      column_def of_rows_def Let_def upt_conv_Cons)

theorem forward_scale_product_is_likelihood_witness:
  "MarkovChain_init (map Fin [3/5, 2/5]) (lift2 (of_rows [[1/2, 1/5, 3/10], [1/10, 3/5, 3/10]]))
     = Inr \<lparr>q = map Fin [3/5, 2/5], A = lift2 (of_rows [[1/2, 1/5, 3/10], [1/10, 3/5, 3/10]]),
            nStates = 2, is_finite = True\<rparr>
   \<and> likelihood [3/5, 2/5] (of_rows [[1/2, 1/5, 3/10], [1/10, 3/5, 3/10]])
        (of_rows [[1, 1, 1], [1, 1, 1]]) = 147/1000
   \<and> (\<exists>a_hat c. forward \<lparr>q = map Fin [3/5, 2/5], A = lift2 (of_rows [[1/2, 1/5, 3/10], [1/10, 3/5, 3/10]]),
            nStates = 2, is_finite = True\<rparr> (lift2 (of_rows [[1, 1, 1], [1, 1, 1]])) = Inr (a_hat, c)
        \<and> c = [Fin 1, Fin (7/10), Fin (7/10), Fin (3/10)]
        \<and> np_prod c = Fin (147/1000))"
proof -
  let ?qr = "[3/5, 2/5 :: real]"
  let ?Ar = "of_rows [[1/2, 1/5, 3/10], [1/10, 3/5, 3/10 :: real]]"
  let ?Xr = "of_rows [[1, 1, 1], [1, 1, 1 :: real]]"
  let ?mc = "\<lparr>q = map Fin ?qr, A = lift2 ?Ar, nStates = 2, is_finite = True\<rparr>"
  have h1: "MarkovChain_init (map Fin ?qr) (lift2 ?Ar) = Inr ?mc"
    by (simp add: MarkovChain_init_def of_rows_def)
  have h2: "length ?qr = nrows ?Ar" by (simp add: of_rows_def)
  have h3: "ncols ?Ar = nrows ?Ar \<or> ncols ?Ar = nrows ?Ar + 1" by (simp add: of_rows_def)
  have h4: "nrows ?Xr = nStates ?mc" by (simp add: of_rows_def)
  have h5: "1 \<le> ncols ?Xr" by (simp add: of_rows_def)
  from forward_scale_product_is_likelihood [OF h1 h2 h3 h4 h5]
  obtain a_hat c where fw: "forward ?mc (lift2 ?Xr) = Inr (a_hat, c)"
    and imp: "(\<forall>t<ncols ?Xr. \<exists>x>0. c ! t = Fin x) \<longrightarrow> np_prod c = Fin (likelihood ?qr ?Ar ?Xr)"
    by blast
  have c: "c = [Fin 1, Fin (7/10), Fin (7/10), Fin (3/10)]"
    using forward_spec_scenario_real fw by (simp add: forward_columns_def)
  have nc: "ncols ?Xr = 3" by (simp add: of_rows_def)
  have "\<exists>x>0. c ! t = Fin x" if "t < 3" for t
  proof -
    from that consider "t = 0" | "t = 1" | "t = 2" by linarith
    then show ?thesis
    proof cases
      case 1
      then show ?thesis by (intro exI [of _ 1]) (simp add: c)
    next
      case 2
      then show ?thesis by (intro exI [of _ "7/10"]) (simp add: c)
    next
      case 3
      then show ?thesis by (intro exI [of _ "7/10"]) (simp add: c)
    qed
  qed
  then have "\<forall>t<ncols ?Xr. \<exists>x>0. c ! t = Fin x" unfolding nc by blast
  with imp have "np_prod c = Fin (likelihood ?qr ?Ar ?Xr)" by blast
  then have "np_prod c = Fin (147/1000)" by (simp only: likelihood_spec_scenario)
  with h1 fw c likelihood_spec_scenario show ?thesis by blast
qed

section \<open>Backward: the loops and the identity\<close>

lemma backward_inner_ok:
  assumes "i < nrows (A mc)" "Suc t < ncols pX" "Suc t < ncols bh"
  shows "\<forall>j\<in>set js. j < ncols (A mc) \<and> j < nrows pX \<and> j < nrows bh \<Longrightarrow>
     backward_inner mc pX bh t i js sp =
       Inr (foldl (\<lambda>sp j. np_add sp (np_mul (np_mul (ent (A mc) i j) (ent pX j (t + 1))) (ent bh j (t + 1)))) sp js)"
  using assms by (induction js arbitrary: sp) (simp_all add: get2_def)

lemma inner_sum_cong:
  "(\<And>j. j < nStates mc \<Longrightarrow> ent bh' j (Suc t) = ent bh j (Suc t)) \<Longrightarrow>
   inner_sum mc pX bh' t i = inner_sum mc pX bh t i"
  unfolding inner_sum_def by (rule foldl_cong) simp_all

lemma backward_rows_ok:
  assumes sh: "Suc t < ncols pX" "Suc t < ncols bh" "t < length c"
    and n: "nStates mc \<le> ncols (A mc)" "nStates mc \<le> nrows pX" "nStates mc \<le> nrows bh"
  shows "\<forall>i\<in>set is. i < nrows (A mc) \<and> i < nrows bh \<Longrightarrow>
     \<exists>bh'. backward_rows mc c pX t is bh = Inr bh'
       \<and> nrows bh' = nrows bh \<and> ncols bh' = ncols bh
       \<and> (\<forall>r k. k \<noteq> t \<longrightarrow> ent bh' r k = ent bh r k)
       \<and> (\<forall>r. r \<notin> set is \<longrightarrow> ent bh' r t = ent bh r t)
       \<and> (\<forall>i\<in>set is. ent bh' i t = np_div (inner_sum mc pX bh t i) (c ! t))"
  using sh(2) n(3)
proof (induction "is" arbitrary: bh)
  case Nil
  then show ?case by simp
next
  case (Cons i "is")
  from Cons.prems have i: "i < nrows (A mc)" "i < nrows bh" by simp_all
  have js: "\<forall>j\<in>set [0..<nStates mc]. j < ncols (A mc) \<and> j < nrows pX \<and> j < nrows bh"
    using n(1,2) Cons.prems by auto
  have inner: "backward_inner mc pX bh t i [0..<nStates mc] (Fin 0) = Inr (inner_sum mc pX bh t i)"
    using backward_inner_ok [OF i(1) sh(1) Cons.prems(2) js] by (simp add: inner_sum_def)
  define v where "v = np_div (inner_sum mc pX bh t i) (c ! t)"
  define bh1 where "bh1 = NdArray (nrows bh) (ncols bh) (\<lambda>r k. if r = i \<and> k = t then v else ent bh r k)"
  have set1: "set_entry bh i t v = Inr bh1"
    using i Cons.prems(2) by (simp add: set_entry_def bh1_def)
  have sh1: "nrows bh1 = nrows bh" "ncols bh1 = ncols bh" by (simp_all add: bh1_def)
  have e1: "ent bh1 r k = (if r = i \<and> k = t then v else ent bh r k)" for r k
    by (simp add: bh1_def)
  have rows: "backward_rows mc c pX t (i # is) bh = backward_rows mc c pX t is bh1"
    using sh(3) set1 by (simp add: inner get1_def v_def)
  have p1: "\<forall>i\<in>set is. i < nrows (A mc) \<and> i < nrows bh1" using Cons.prems(1) sh1 by simp
  from Cons.IH [OF p1] Cons.prems sh1
  obtain bh' where r: "backward_rows mc c pX t is bh1 = Inr bh'"
    and sh': "nrows bh' = nrows bh1" "ncols bh' = ncols bh1"
    and other: "\<And>r k. k \<noteq> t \<Longrightarrow> ent bh' r k = ent bh1 r k"
    and notin: "\<And>r. r \<notin> set is \<Longrightarrow> ent bh' r t = ent bh1 r t"
    and isin: "\<And>j. j \<in> set is \<Longrightarrow> ent bh' j t = np_div (inner_sum mc pX bh1 t j) (c ! t)"
    by auto
  have same: "inner_sum mc pX bh1 t j = inner_sum mc pX bh t j" for j
    by (rule inner_sum_cong) (simp add: e1)
  have "ent bh' j t = np_div (inner_sum mc pX bh t j) (c ! t)" if "j \<in> set (i # is)" for j
  proof (cases "j \<in> set is")
    case True
    then show ?thesis using isin same by simp
  next
    case False
    with that have "j = i" by simp
    then show ?thesis using notin [OF False] by (simp add: e1 v_def)
  qed
  moreover have "ent bh' r k = ent bh r k" if "k \<noteq> t" for r k
    using other [OF that] that by (simp add: e1)
  moreover have "ent bh' r t = ent bh r t" if "r \<notin> set (i # is)" for r
    using notin [where r = r] that by (simp add: e1)
  ultimately show ?case using rows r sh' sh1 by auto
qed

lemma backward_loop_ok:
  assumes n: "nStates mc \<le> ncols (A mc)" "nStates mc \<le> nrows pX" "nStates mc \<le> nrows (A mc)"
  shows "m < ncols pX \<Longrightarrow> m \<le> length c \<Longrightarrow> nrows bh = nStates mc \<Longrightarrow> ncols bh = ncols pX \<Longrightarrow>
     \<exists>bh'. backward_loop mc c pX (rev [0..<m]) bh = Inr bh'
       \<and> nrows bh' = nrows bh \<and> ncols bh' = ncols bh
       \<and> (\<forall>r k. m \<le> k \<longrightarrow> ent bh' r k = ent bh r k)
       \<and> (\<forall>t<m. \<forall>i<nStates mc. ent bh' i t = np_div (inner_sum mc pX bh' t i) (c ! t))"
proof (induction m arbitrary: bh)
  case 0
  then show ?case by simp
next
  case (Suc m)
  have sh: "Suc m < ncols pX" "Suc m < ncols bh" "m < length c" using Suc.prems by simp_all
  have nb: "nStates mc \<le> nrows bh" using Suc.prems by simp
  have rows: "\<forall>i\<in>set [0..<nStates mc]. i < nrows (A mc) \<and> i < nrows bh"
    using n(3) Suc.prems by auto
  from backward_rows_ok [OF sh n(1,2) nb rows]
  obtain bh1 where r1: "backward_rows mc c pX m [0..<nStates mc] bh = Inr bh1"
    and sh1: "nrows bh1 = nrows bh" "ncols bh1 = ncols bh"
    and other1: "\<And>r k. k \<noteq> m \<Longrightarrow> ent bh1 r k = ent bh r k"
    and col1: "\<And>i. i < nStates mc \<Longrightarrow> ent bh1 i m = np_div (inner_sum mc pX bh m i) (c ! m)"
    by auto
  have "\<exists>bh'. backward_loop mc c pX (rev [0..<m]) bh1 = Inr bh'
       \<and> nrows bh' = nrows bh1 \<and> ncols bh' = ncols bh1
       \<and> (\<forall>r k. m \<le> k \<longrightarrow> ent bh' r k = ent bh1 r k)
       \<and> (\<forall>t<m. \<forall>i<nStates mc. ent bh' i t = np_div (inner_sum mc pX bh' t i) (c ! t))"
    by (rule Suc.IH) (use Suc.prems sh1 in simp_all)
  then obtain bh' where r: "backward_loop mc c pX (rev [0..<m]) bh1 = Inr bh'"
    and sh': "nrows bh' = nrows bh1" "ncols bh' = ncols bh1"
    and keep: "\<And>r k. m \<le> k \<Longrightarrow> ent bh' r k = ent bh1 r k"
    and eqs: "\<And>t i. t < m \<Longrightarrow> i < nStates mc \<Longrightarrow>
                ent bh' i t = np_div (inner_sum mc pX bh' t i) (c ! t)"
    by blast
  have loop: "backward_loop mc c pX (rev [0..<Suc m]) bh = Inr bh'"
    using r1 r by simp
  have same: "inner_sum mc pX bh' m i = inner_sum mc pX bh m i" for i
    by (rule inner_sum_cong) (simp add: keep other1)
  have "ent bh' i t = np_div (inner_sum mc pX bh' t i) (c ! t)" if "t < Suc m" "i < nStates mc" for t i
  proof (cases "t = m")
    case True
    show ?thesis unfolding True same using keep [where k = m and r = i] col1 [OF that(2)] by simp
  next
    case False
    with that have "t < m" by simp
    then show ?thesis using eqs that by simp
  qed
  moreover have "ent bh' r k = ent bh r k" if "Suc m \<le> k" for r k
    using keep [where k = k and r = r] other1 [where k = k and r = r] that by simp
  ultimately show ?case using loop sh' sh1 by auto
qed

lemma np_zeros2_simps [simp]:
  "nrows (np_zeros2 r c) = r" "ncols (np_zeros2 r c) = c" "ent (np_zeros2 r c) i j = Fin 0"
  by (simp_all add: np_zeros2_def)

lemma set_column_ok:
  "j < ncols M \<Longrightarrow> length v = nrows M \<Longrightarrow>
   \<exists>M'. set_column M j v = Inr M' \<and> nrows M' = nrows M \<and> ncols M' = ncols M
        \<and> (\<forall>i<nrows M. ent M' i j = v ! i)"
  by (simp add: set_column_def)

lemma set_column_broadcast_ok:
  "j < ncols M \<Longrightarrow>
   \<exists>M'. set_column M j [v] = Inr M' \<and> nrows M' = nrows M \<and> ncols M' = ncols M
        \<and> (\<forall>i<nrows M. ent M' i j = v)"
  by (cases "nrows M = 1") (auto simp: set_column_def)

lemma backward_char:
  assumes init: "MarkovChain_init q0 A0 = Inr mc"
    and shape: "ncols A0 = nrows A0 \<or> ncols A0 = nrows A0 + 1"
    and pX: "nrows pX = nrows A0" "0 < ncols pX"
    and len: "length c = (if is_finite mc then ncols pX + 1 else ncols pX)"
  shows "\<exists>bh. backward mc c pX = Inr bh \<and> nrows bh = nrows A0 \<and> ncols bh = ncols pX
           \<and> (\<forall>i<nrows A0. ent bh i (ncols pX - 1) =
                 (if is_finite mc
                  then np_div (ent A0 i (nrows A0)) (np_mul (c ! ncols pX) (c ! (ncols pX - 1)))
                  else np_div (Fin 1) (c ! (ncols pX - 1))))
           \<and> (\<forall>t<ncols pX - 1. \<forall>i<nrows A0.
                 ent bh i t = np_div (inner_sum mc pX bh t i) (c ! t))"
proof -
  define n where "n = nrows A0"
  define T where "T = ncols pX"
  from init have mc: "A mc = A0" "nStates mc = n" "is_finite mc = (nrows A0 \<noteq> ncols A0)"
    by (auto simp: MarkovChain_init_def n_def)
  have T: "0 < T" using pX by (simp add: T_def)
  define last where "last = (\<lambda>i. if is_finite mc
                  then np_div (ent A0 i n) (np_mul (c ! T) (c ! (T - 1)))
                  else np_div (Fin 1) (c ! (T - 1)))"
  have "\<exists>b. (if is_finite mc then
           (case last_col (A mc) of
              Inl e \<Rightarrow> Inl e
            | Inr a_end \<Rightarrow>
                (case set_column (np_zeros2 n T) (T - 1) a_end of
                   Inl e \<Rightarrow> Inl e
                 | Inr b1 \<Rightarrow>
                     (case get_neg c 1 of
                        Inl e \<Rightarrow> Inl e
                      | Inr c1 \<Rightarrow>
                          (case get_neg c 2 of
                             Inl e \<Rightarrow> Inl e
                           | Inr c2 \<Rightarrow>
                               set_column b1 (T - 1)
                                 (map (\<lambda>x. np_div x (np_mul c1 c2)) (column b1 (T - 1)))))))
         else
           (case get_neg c 1 of
              Inl e \<Rightarrow> Inl e
            | Inr c1 \<Rightarrow> set_column (np_zeros2 n T) (T - 1) [np_div (Fin 1) c1])) = Inr b
        \<and> nrows b = n \<and> ncols b = T \<and> (\<forall>i<n. ent b i (T - 1) = last i)"
  proof (cases "is_finite mc")
    case True
    with shape mc have nc: "ncols A0 = n + 1" by (auto simp: n_def)
    have lc: "last_col (A mc) = Inr (column A0 n)" using nc by (simp add: last_col_def mc)
    have L: "length c = T + 1" using len True by (simp add: T_def)
    from set_column_ok [of "T - 1" "np_zeros2 n T" "column A0 n"] T
    obtain b1 where b1: "set_column (np_zeros2 n T) (T - 1) (column A0 n) = Inr b1"
      and sh1: "nrows b1 = n" "ncols b1 = T"
      and e1: "\<And>i. i < n \<Longrightarrow> ent b1 i (T - 1) = ent A0 i n"
      by (auto simp: n_def)
    have g1: "get_neg c 1 = Inr (c ! T)" using L by (simp add: get_neg_def)
    have g2: "get_neg c 2 = Inr (c ! (T - 1))" using L T by (simp add: get_neg_def)
    define v where "v = map (\<lambda>x. np_div x (np_mul (c ! T) (c ! (T - 1)))) (column b1 (T - 1))"
    have lv: "length v = nrows b1" by (simp add: v_def)
    from set_column_ok [of "T - 1" b1 v] T sh1 lv
    obtain b2 where b2: "set_column b1 (T - 1) v = Inr b2"
      and sh2: "nrows b2 = n" "ncols b2 = T"
      and e2: "\<And>i. i < n \<Longrightarrow> ent b2 i (T - 1) = v ! i"
      by auto
    have "ent b2 i (T - 1) = last i" if "i < n" for i
      using e2 [OF that] e1 [OF that] that sh1 True by (simp add: v_def last_def)
    then show ?thesis using True lc b1 g1 g2 b2 sh2 by (simp add: v_def)
  next
    case False
    have L: "length c = T" using len False by (simp add: T_def)
    have g1: "get_neg c 1 = Inr (c ! (T - 1))" using L T by (simp add: get_neg_def)
    from set_column_broadcast_ok [of "T - 1" "np_zeros2 n T" "np_div (Fin 1) (c ! (T - 1))"] T
    obtain b where b: "set_column (np_zeros2 n T) (T - 1) [np_div (Fin 1) (c ! (T - 1))] = Inr b"
      and sh: "nrows b = n" "ncols b = T"
      and e: "\<And>i. i < n \<Longrightarrow> ent b i (T - 1) = np_div (Fin 1) (c ! (T - 1))"
      by auto
    show ?thesis using False g1 b sh e by (simp add: last_def)
  qed
  then obtain b where start: "(if is_finite mc then
           (case last_col (A mc) of
              Inl e \<Rightarrow> Inl e
            | Inr a_end \<Rightarrow>
                (case set_column (np_zeros2 n T) (T - 1) a_end of
                   Inl e \<Rightarrow> Inl e
                 | Inr b1 \<Rightarrow>
                     (case get_neg c 1 of
                        Inl e \<Rightarrow> Inl e
                      | Inr c1 \<Rightarrow>
                          (case get_neg c 2 of
                             Inl e \<Rightarrow> Inl e
                           | Inr c2 \<Rightarrow>
                               set_column b1 (T - 1)
                                 (map (\<lambda>x. np_div x (np_mul c1 c2)) (column b1 (T - 1)))))))
         else
           (case get_neg c 1 of
              Inl e \<Rightarrow> Inl e
            | Inr c1 \<Rightarrow> set_column (np_zeros2 n T) (T - 1) [np_div (Fin 1) c1])) = Inr b"
    and shb: "nrows b = n" "ncols b = T" and lastb: "\<And>i. i < n \<Longrightarrow> ent b i (T - 1) = last i"
    by blast
  have nn: "nStates mc \<le> ncols (A mc)" "nStates mc \<le> nrows pX" "nStates mc \<le> nrows (A mc)"
    using shape pX by (auto simp: mc n_def)
  have "\<exists>bh'. backward_loop mc c pX (rev [0..<T - 1]) b = Inr bh'
       \<and> nrows bh' = nrows b \<and> ncols bh' = ncols b
       \<and> (\<forall>r k. T - 1 \<le> k \<longrightarrow> ent bh' r k = ent b r k)
       \<and> (\<forall>t<T - 1. \<forall>i<nStates mc. ent bh' i t = np_div (inner_sum mc pX bh' t i) (c ! t))"
    by (rule backward_loop_ok [OF nn]) (use T len shb in \<open>auto simp: T_def mc\<close>)
  then obtain bh where loop: "backward_loop mc c pX (rev [0..<T - 1]) b = Inr bh"
    and shh: "nrows bh = n" "ncols bh = T"
    and keep: "\<And>r. ent bh r (T - 1) = ent b r (T - 1)"
    and eqs: "\<And>t i. t < T - 1 \<Longrightarrow> i < n \<Longrightarrow> ent bh i t = np_div (inner_sum mc pX bh t i) (c ! t)"
    using shb mc by auto
  have "backward mc c pX = Inr bh"
    unfolding backward_def Let_def mc(2) T_def [symmetric] start using loop by simp
  then show ?thesis
    using shh keep lastb eqs unfolding n_def [symmetric] T_def [symmetric] last_def by auto
qed

lemma foldl_np_add_Fin:
  "(\<And>j. j \<in> set js \<Longrightarrow> F j = Fin (f j)) \<Longrightarrow>
   foldl (\<lambda>sp j. np_add sp (F j)) (Fin s) js = Fin (s + sum_list (map f js))"
  by (induction js arbitrary: s) (simp_all add: add.assoc)

lemma inner_sum_real:
  assumes mc: "A mc = lift2 Ar" "nStates mc = n"
    and b: "\<And>j. j < n \<Longrightarrow> ent bh j (Suc t) = Fin (b j)"
  shows "inner_sum mc (lift2 Xr) bh t i = Fin (\<Sum>j<n. ent Ar i j * ent Xr j (Suc t) * b j)"
proof -
  have "inner_sum mc (lift2 Xr) bh t i =
      Fin (0 + sum_list (map (\<lambda>j. ent Ar i j * ent Xr j (Suc t) * b j) [0..<n]))"
    unfolding inner_sum_def mc by (rule foldl_np_add_Fin) (simp add: b)
  then show ?thesis by (simp add: sum_list_upt_lessThan)
qed

lemma backward_real:
  assumes mc: "A mc = lift2 Ar" "nStates mc = n"
    and T: "0 < T"
    and cx: "\<And>t. t < T \<Longrightarrow> c ! t = Fin (x t) \<and> x t \<noteq> 0"
    and last: "\<And>i. i < n \<Longrightarrow> ent bh i (T - 1) = Fin (bl i)"
    and eqs: "\<And>t i. t < T - 1 \<Longrightarrow> i < n \<Longrightarrow>
                ent bh i t = np_div (inner_sum mc (lift2 Xr) bh t i) (c ! t)"
  shows "d < T \<Longrightarrow> \<forall>i<n. ent bh i (T - 1 - d) = Fin (the_real (ent bh i (T - 1 - d)))"
proof (induction d)
  case 0
  then show ?case using last by simp
next
  case (Suc d)
  define t where "t = T - 1 - Suc d"
  have t: "t < T - 1" "Suc t = T - 1 - d" "t < T" using Suc.prems by (simp_all add: t_def)
  from Suc.IH Suc.prems
  have b: "\<And>j. j < n \<Longrightarrow> ent bh j (Suc t) = Fin (the_real (ent bh j (Suc t)))"
    by (simp add: t(2))
  have "ent bh i t = Fin (the_real (ent bh i t))" if "i < n" for i
  proof -
    from cx [OF t(3)] have ct: "c ! t = Fin (x t)" "x t \<noteq> 0" by simp_all
    have inner: "inner_sum mc (lift2 Xr) bh t i =
        Fin (\<Sum>j<n. ent Ar i j * ent Xr j (Suc t) * the_real (ent bh j (Suc t)))"
      by (rule inner_sum_real [OF mc]) (rule b)
    have "ent bh i t = np_div (inner_sum mc (lift2 Xr) bh t i) (c ! t)"
      by (rule eqs [OF t(1) that])
    also have "\<dots> = Fin ((\<Sum>j<n. ent Ar i j * ent Xr j (Suc t) * the_real (ent bh j (Suc t))) / x t)"
      unfolding inner ct(1) using ct(2) by simp
    finally show ?thesis by simp
  qed
  then show ?case by (simp add: t_def)
qed

lemma fb_identity_real:
  fixes ar :: "nat \<Rightarrow> nat \<Rightarrow> real" and br :: "nat \<Rightarrow> nat \<Rightarrow> real" and x :: "nat \<Rightarrow> real"
  assumes F2: "\<And>t j. Suc t < T \<Longrightarrow> j < n \<Longrightarrow>
                 ar (Suc t) j * x (Suc t) = ent Xr j (Suc t) * (\<Sum>i<n. ar t i * ent Ar i j)"
    and B1: "(\<Sum>i<n. ar (T - 1) i * br i (T - 1) * x (T - 1)) = 1"
    and B2: "\<And>t i. t < T - 1 \<Longrightarrow> i < n \<Longrightarrow>
                 br i t * x t = (\<Sum>j<n. ent Ar i j * ent Xr j (Suc t) * br j (Suc t))"
  shows "d < T \<Longrightarrow> (\<Sum>i<n. ar (T - 1 - d) i * br i (T - 1 - d) * x (T - 1 - d)) = 1"
proof (induction d)
  case 0
  then show ?case using B1 by simp
next
  case (Suc d)
  define t where "t = T - 1 - Suc d"
  have t: "t < T - 1" "Suc t = T - 1 - d" "Suc t < T" using Suc.prems by (simp_all add: t_def)
  have "(\<Sum>i<n. ar t i * br i t * x t) =
        (\<Sum>i<n. \<Sum>j<n. ar t i * (ent Ar i j * ent Xr j (Suc t) * br j (Suc t)))"
    by (rule sum.cong) (simp_all add: mult.assoc B2 [OF t(1)] sum_distrib_left)
  also have "\<dots> = (\<Sum>j<n. \<Sum>i<n. ar t i * (ent Ar i j * ent Xr j (Suc t) * br j (Suc t)))"
    by (rule sum.swap)
  also have "\<dots> = (\<Sum>j<n. (ent Xr j (Suc t) * (\<Sum>i<n. ar t i * ent Ar i j)) * br j (Suc t))"
    by (rule sum.cong) (simp_all add: sum_distrib_left sum_distrib_right mult_ac)
  also have "\<dots> = (\<Sum>j<n. ar (Suc t) j * x (Suc t) * br j (Suc t))"
    by (rule sum.cong) (simp_all add: F2 [OF t(3)])
  also have "\<dots> = (\<Sum>j<n. ar (Suc t) j * br j (Suc t) * x (Suc t))"
    by (simp add: mult_ac)
  also have "\<dots> = 1" using Suc.IH Suc.prems by (simp add: t(2))
  finally show ?case by (simp add: t_def)
qed

text \<open>
  The forward-backward identity in exact arithmetic. For every model with real entries of
  the documented shape and every real \<open>pX\<close> with \<open>nStates\<close> rows and at least one
  column, \<open>forward\<close> returns \<open>(a_hat, c)\<close> and \<open>backward\<close>, run on that \<open>c\<close>,
  returns \<open>beta_hat\<close>. When every mass \<open>c[t]\<close>, \<open>t < nObservations\<close>, is strictly
  positive and, for a finite chain, the exit factor \<open>c[nObservations]\<close> is not zero, the
  sum over \<open>i\<close> of \<open>a_hat[i,t] * beta_hat[i,t] * c[t]\<close>, computed without rounding,
  is 1 at every time step. In float64 the sums agree up to rounding only.
\<close>

theorem forward_backward_identity:
  assumes init: "MarkovChain_init (map Fin qr) (lift2 Ar) = Inr mc"
    and qr: "length qr = nrows Ar"
    and shape: "ncols Ar = nrows Ar \<or> ncols Ar = nrows Ar + 1"
    and pX: "nrows Xr = nStates mc" "1 \<le> ncols Xr"
  shows "\<exists>a_hat c beta_hat. forward mc (lift2 Xr) = Inr (a_hat, c)
           \<and> backward mc c (lift2 Xr) = Inr beta_hat
           \<and> ((\<forall>t<ncols Xr. \<exists>x>0. c ! t = Fin x) \<and> (is_finite mc \<longrightarrow> c ! ncols Xr \<noteq> Fin 0)
                \<longrightarrow> (\<forall>t<ncols Xr. fb_sum a_hat beta_hat c t = Fin 1))"
proof -
  define n where "n = nrows Ar"
  define T where "T = ncols Xr"
  from init have mc: "A mc = lift2 Ar" "nStates mc = n"
    by (auto simp: MarkovChain_init_def n_def)
  have q0: "length (map Fin qr) = nrows (lift2 Ar)" using qr by simp
  have sh0: "ncols (lift2 Ar) = nrows (lift2 Ar) \<or> ncols (lift2 Ar) = nrows (lift2 Ar) + 1"
    using shape by simp
  have pX': "nrows (lift2 Xr) = nrows (lift2 Ar)" "0 < ncols (lift2 Xr)"
    using pX mc by (simp_all add: n_def)
  have T: "0 < T" using pX by (simp add: T_def)
  from forward_char [OF init q0 sh0 pX']
  obtain a_hat c where fw: "forward mc (lift2 Xr) = Inr (a_hat, c)"
    and sh: "nrows a_hat = n" "length c = (if is_finite mc then T + 1 else T)"
    and sat: "\<And>t. t < T \<Longrightarrow> fwd_sat (map Fin qr) (A_used mc) (lift2 Xr) a_hat c t"
    and last: "is_finite mc \<Longrightarrow>
        c ! T = np_sum (map2 np_mul (column a_hat (T - 1)) (column (lift2 Ar) n))"
    using pX mc by (auto simp: n_def T_def)
  have len: "length c = (if is_finite mc then ncols (lift2 Xr) + 1 else ncols (lift2 Xr))"
    using sh by (simp add: T_def)
  from backward_char [OF init sh0 pX' len]
  obtain bh where bw: "backward mc c (lift2 Xr) = Inr bh"
    and lastb: "\<And>i. i < n \<Longrightarrow> ent bh i (T - 1) =
                 (if is_finite mc
                  then np_div (Fin (ent Ar i n)) (np_mul (c ! T) (c ! (T - 1)))
                  else np_div (Fin 1) (c ! (T - 1)))"
    and eqs: "\<And>t i. t < T - 1 \<Longrightarrow> i < n \<Longrightarrow>
                 ent bh i t = np_div (inner_sum mc (lift2 Xr) bh t i) (c ! t)"
    by (auto simp: n_def T_def)
  have "fb_sum a_hat bh c t = Fin 1"
    if pos: "\<forall>t<T. \<exists>x>0. c ! t = Fin x" and ex: "is_finite mc \<longrightarrow> c ! T \<noteq> Fin 0"
      and tT: "t < T" for t
  proof -
    define x where "x t = the_real (c ! t)" for t
    define P where "P t = (\<Prod>s\<le>t. x s)" for t
    define ar where "ar t j = alpha qr Ar Xr t j / P t" for t j
    define br where "br i t = the_real (ent bh i t)" for i t
    have cx: "c ! t = Fin (x t) \<and> x t \<noteq> 0" if "t < T" for t
      using pos that by (auto simp: x_def)
    have At: "nrows (A_used mc) = n" "ncols (A_used mc) = n"
      "\<And>i j. ent (A_used mc) i j = Fin (ent Ar i j)"
      using A_used_real [OF init shape] by (simp_all add: n_def)
    have Xn: "nrows Xr = n" using pX mc by simp
    have fa: "column a_hat t = map (\<lambda>j. Fin (ar t j)) [0..<n] \<and> (\<Sum>j<n. alpha qr Ar Xr t j) = P t"
      if "t < T" for t
      unfolding ar_def P_def
      by (rule fwd_alpha [OF At n_def [symmetric] qr [folded n_def] Xn sat cx that])
    have P0: "P t \<noteq> 0" if "t < T" for t using cx that by (simp add: P_def prod_zero_iff)
    have ae: "ent a_hat j t = Fin (ar t j)" if "t < T" "j < n" for t j
    proof -
      have "column a_hat t ! j = Fin (ar t j)" using fa [OF that(1)] that(2) by simp
      then show ?thesis using that(2) sh(1) by simp
    qed
    have F1: "(\<Sum>j<n. ar t j) = 1" if "t < T" for t
      using fa [OF that] P0 [OF that] by (simp add: ar_def sum_divide_distrib [symmetric])
    have F2: "ar (Suc t) j * x (Suc t) = ent Xr j (Suc t) * (\<Sum>i<n. ar t i * ent Ar i j)"
      if "Suc t < T" "j < n" for t j
    proof -
      have t: "t < T" using that by simp
      have "P (Suc t) = P t * x (Suc t)" by (simp add: P_def)
      then have "ar (Suc t) j * x (Suc t) = alpha qr Ar Xr (Suc t) j / P t"
        using cx [OF that(1)] P0 [OF t] by (simp add: ar_def)
      also have "\<dots> = ent Xr j (Suc t) * (\<Sum>i<n. ar t i * ent Ar i j)"
        by (simp add: ar_def n_def sum_divide_distrib [symmetric])
      finally show ?thesis .
    qed
    have T1: "T - 1 < T" using T by simp
    have dc: "np_sum (map2 np_mul (column a_hat (T - 1)) (column (lift2 Ar) n)) =
        Fin (\<Sum>j<n. ar (T - 1) j * ent Ar j n)"
      by (rule dot_column_real [OF conjunct1 [OF fa [OF T1]] n_def [symmetric]])
    have lastr: "\<exists>b. ent bh i (T - 1) = Fin b" if "i < n" for i
    proof (cases "is_finite mc")
      case False
      then show ?thesis using lastb [OF that] cx [OF T1] by simp
    next
      case True
      have "c ! T = Fin (\<Sum>j<n. ar (T - 1) j * ent Ar j n)"
        using last [OF True] dc by simp
      then show ?thesis using lastb [OF that] cx [OF T1] ex True by simp
    qed
    have bl: "ent bh i (T - 1) = Fin (br i (T - 1))" if "i < n" for i
      using lastr [OF that] by (auto simp: br_def)
    have be: "ent bh i t = Fin (br i t)" if "t < T" "i < n" for t i
    proof -
      have "T - 1 - t < T" using T by simp
      from backward_real [OF mc T cx bl eqs this] that
      show ?thesis using that by (simp add: br_def)
    qed
    have B2: "br i t * x t = (\<Sum>j<n. ent Ar i j * ent Xr j (Suc t) * br j (Suc t))"
      if "t < T - 1" "i < n" for t i
    proof -
      have t: "t < T" "Suc t < T" using that by simp_all
      have inner: "inner_sum mc (lift2 Xr) bh t i =
          Fin (\<Sum>j<n. ent Ar i j * ent Xr j (Suc t) * br j (Suc t))"
        by (rule inner_sum_real [OF mc]) (rule be [OF t(2)])
      have "Fin (br i t) = np_div (inner_sum mc (lift2 Xr) bh t i) (c ! t)"
        using eqs [OF that] be [OF t(1) that(2)] by simp
      then show ?thesis unfolding inner using cx [OF t(1)] by simp
    qed
    have B1: "(\<Sum>i<n. ar (T - 1) i * br i (T - 1) * x (T - 1)) = 1"
    proof (cases "is_finite mc")
      case False
      have "br i (T - 1) = 1 / x (T - 1)" if "i < n" for i
        using lastb [OF that] bl [OF that] cx [OF T1] False by simp
      then have "(\<Sum>i<n. ar (T - 1) i * br i (T - 1) * x (T - 1)) = (\<Sum>i<n. ar (T - 1) i)"
        using cx [OF T1] by (intro sum.cong) simp_all
      then show ?thesis using F1 [OF T1] by simp
    next
      case True
      define xT where "xT = (\<Sum>j<n. ar (T - 1) j * ent Ar j n)"
      have cT: "c ! T = Fin xT"
        using last [OF True] dc by (simp add: xT_def)
      with ex True have xT0: "xT \<noteq> 0" by simp
      have "br i (T - 1) = ent Ar i n / (xT * x (T - 1))" if "i < n" for i
        using lastb [OF that] bl [OF that] cx [OF T1] True cT xT0 by simp
      then have "(\<Sum>i<n. ar (T - 1) i * br i (T - 1) * x (T - 1)) =
          (\<Sum>i<n. ar (T - 1) i * ent Ar i n / xT)"
        using cx [OF T1] xT0 by (intro sum.cong) simp_all
      also have "\<dots> = (\<Sum>i<n. ar (T - 1) i * ent Ar i n) / xT"
        by (simp add: sum_divide_distrib)
      also have "\<dots> = 1" using xT0 by (simp add: xT_def)
      finally show ?thesis .
    qed
    have "T - 1 - t < T" using T by simp
    from fb_identity_real [where ar = ar and br = br and x = x and T = T and n = n
        and Xr = Xr and Ar = Ar, OF F2 B1 B2 this] tT
    have g: "(\<Sum>i<n. ar t i * br i t * x t) = 1" by simp
    have "map (\<lambda>i. np_mul (np_mul (ent a_hat i t) (ent bh i t)) (c ! t)) [0..<n] =
          map (\<lambda>i. Fin (ar t i * br i t * x t)) [0..<n]"
      by (rule map_upt_cong) (simp add: ae [OF tT] be [OF tT] cx [OF tT])
    then have "fb_sum a_hat bh c t = Fin (\<Sum>i<n. ar t i * br i t * x t)"
      unfolding fb_sum_def sh(1) by (simp only: np_sum_Fin_upt)
    then show ?thesis using g by simp
  qed
  then show ?thesis using fw bw unfolding T_def by blast
qed

theorem forward_backward_identity_witness:
  "MarkovChain_init (map Fin [3/5, 2/5]) (lift2 (of_rows [[1/2, 1/5, 3/10], [1/10, 3/5, 3/10]]))
     = Inr \<lparr>q = map Fin [3/5, 2/5], A = lift2 (of_rows [[1/2, 1/5, 3/10], [1/10, 3/5, 3/10]]),
            nStates = 2, is_finite = True\<rparr>
   \<and> (\<exists>a_hat c beta_hat.
         forward \<lparr>q = map Fin [3/5, 2/5], A = lift2 (of_rows [[1/2, 1/5, 3/10], [1/10, 3/5, 3/10]]),
            nStates = 2, is_finite = True\<rparr> (lift2 (of_rows [[1, 1, 1], [1, 1, 1]])) = Inr (a_hat, c)
       \<and> backward \<lparr>q = map Fin [3/5, 2/5], A = lift2 (of_rows [[1/2, 1/5, 3/10], [1/10, 3/5, 3/10]]),
            nStates = 2, is_finite = True\<rparr> c (lift2 (of_rows [[1, 1, 1], [1, 1, 1]])) = Inr beta_hat
       \<and> c = [Fin 1, Fin (7/10), Fin (7/10), Fin (3/10)]
       \<and> fb_sum a_hat beta_hat c 0 = Fin 1 \<and> fb_sum a_hat beta_hat c 1 = Fin 1
       \<and> fb_sum a_hat beta_hat c 2 = Fin 1)"
proof -
  let ?qr = "[3/5, 2/5 :: real]"
  let ?Ar = "of_rows [[1/2, 1/5, 3/10], [1/10, 3/5, 3/10 :: real]]"
  let ?Xr = "of_rows [[1, 1, 1], [1, 1, 1 :: real]]"
  let ?mc = "\<lparr>q = map Fin ?qr, A = lift2 ?Ar, nStates = 2, is_finite = True\<rparr>"
  have h1: "MarkovChain_init (map Fin ?qr) (lift2 ?Ar) = Inr ?mc"
    by (simp add: MarkovChain_init_def of_rows_def)
  have h2: "length ?qr = nrows ?Ar" by (simp add: of_rows_def)
  have h3: "ncols ?Ar = nrows ?Ar \<or> ncols ?Ar = nrows ?Ar + 1" by (simp add: of_rows_def)
  have h4: "nrows ?Xr = nStates ?mc" by (simp add: of_rows_def)
  have h5: "1 \<le> ncols ?Xr" by (simp add: of_rows_def)
  from forward_backward_identity [OF h1 h2 h3 h4 h5]
  obtain a_hat c beta_hat where fw: "forward ?mc (lift2 ?Xr) = Inr (a_hat, c)"
    and bw: "backward ?mc c (lift2 ?Xr) = Inr beta_hat"
    and imp: "(\<forall>t<ncols ?Xr. \<exists>x>0. c ! t = Fin x) \<and> (is_finite ?mc \<longrightarrow> c ! ncols ?Xr \<noteq> Fin 0)
                \<longrightarrow> (\<forall>t<ncols ?Xr. fb_sum a_hat beta_hat c t = Fin 1)"
    by blast
  have c: "c = [Fin 1, Fin (7/10), Fin (7/10), Fin (3/10)]"
    using forward_spec_scenario_real fw by (simp add: forward_columns_def)
  have nc: "ncols ?Xr = 3" by (simp add: of_rows_def)
  have "\<exists>x>0. c ! t = Fin x" if "t < 3" for t
  proof -
    from that consider "t = 0" | "t = 1" | "t = 2" by linarith
    then show ?thesis
    proof cases
      case 1
      then show ?thesis by (intro exI [of _ 1]) (simp add: c)
    next
      case 2
      then show ?thesis by (intro exI [of _ "7/10"]) (simp add: c)
    next
      case 3
      then show ?thesis by (intro exI [of _ "7/10"]) (simp add: c)
    qed
  qed
  then have pos: "\<forall>t<ncols ?Xr. \<exists>x>0. c ! t = Fin x" unfolding nc by blast
  have ex: "is_finite ?mc \<longrightarrow> c ! ncols ?Xr \<noteq> Fin 0" by (simp add: nc c)
  from imp pos ex have "\<forall>t<3. fb_sum a_hat beta_hat c t = Fin 1" unfolding nc by blast
  then have "fb_sum a_hat beta_hat c 0 = Fin 1 \<and> fb_sum a_hat beta_hat c 1 = Fin 1
       \<and> fb_sum a_hat beta_hat c 2 = Fin 1" by simp
  with h1 fw bw c show ?thesis by blast
qed

text \<open>
  The hypothesis on the exit factor is needed. With \<open>q = [1, 0]\<close>,
  \<open>A = [[0.5, 0.5, 0], [0, 0.5, 0.5]]\<close> and \<open>pX = [[1, 1], [0, 0]]\<close> the masses are
  \<open>c[0] = 1\<close> and \<open>c[1] = 0.5\<close>, both positive, and \<open>c[2] = 0\<close>: the chain is in
  state 1, which cannot exit. \<open>backward\<close> divides \<open>A[:, -1]\<close> by \<open>c[-1] * c[-2] = 0\<close>,
  and the sum is \<open>nan\<close> at both time steps; \<open>nan\<close> is not equal to \<open>nan\<close>.
\<close>

theorem forward_backward_zero_exit:
  "forward_columns \<lparr>q = [Fin 1, Fin 0],
       A = of_rows [[Fin (1/2), Fin (1/2), Fin 0], [Fin 0, Fin (1/2), Fin (1/2)]],
       nStates = 2, is_finite = True\<rparr>
     (of_rows [[Fin 1, Fin 1], [Fin 0, Fin 0]])
   = Inr ([[Fin 1, Fin 0], [Fin 1, Fin 0]], [Fin 1, Fin (1/2), Fin 0])
   \<and> forward_backward_sums \<lparr>q = [Fin 1, Fin 0],
       A = of_rows [[Fin (1/2), Fin (1/2), Fin 0], [Fin 0, Fin (1/2), Fin (1/2)]],
       nStates = 2, is_finite = True\<rparr>
     (of_rows [[Fin 1, Fin 1], [Fin 0, Fin 0]])
   = Inr [NaN, NaN]
   \<and> \<not> np_equal NaN NaN"
  by (simp add: forward_columns_def forward_backward_sums_def fb_sum_def forward_def
      forward_first_def forward_step_def np_multiply_def vec_matmul_def set_column_def np_dot_def
      last_col_def drop_last_col_def backward_def get_neg_def get1_def get2_def set_entry_def
      np_zeros2_def np_ones2_def signed_inf_def np_equal_def column_def of_rows_def Let_def
      upt_conv_Cons)

text \<open>On the scenario of the specification the three sums are 1.\<close>

lemma forward_backward_spec_scenario:
  "forward_backward_sums
     \<lparr>q = [Fin (3/5), Fin (2/5)],
       A = of_rows [[Fin (1/2), Fin (1/5), Fin (3/10)], [Fin (1/10), Fin (3/5), Fin (3/10)]],
       nStates = 2, is_finite = True\<rparr>
     (of_rows [[Fin 1, Fin 1, Fin 1], [Fin 1, Fin 1, Fin 1]])
   = Inr [Fin 1, Fin 1, Fin 1]"
  by (simp add: forward_backward_sums_def fb_sum_def forward_def forward_first_def forward_step_def
      np_multiply_def vec_matmul_def set_column_def np_dot_def last_col_def drop_last_col_def
      backward_def get_neg_def get1_def get2_def set_entry_def np_zeros2_def np_ones2_def
      column_def of_rows_def Let_def upt_conv_Cons)

end
